theory Spec2Isabelle
  imports Main "HOL-Library.Multiset"
begin

section \<open>Python values used by Extractor.py\<close>

text \<open>
  Python strings are modelled as \<open>string\<close>, Python's unbounded integers as \<open>int\<close>,
  \<open>Optional[int]\<close> as \<open>int option\<close>. An exception is a value; a function that may raise
  returns \<open>exn + 'a\<close> with \<open>Inl\<close> for the raised exception. Only subclasses of
  \<open>Exception\<close> are raised by the operations used here (\<open>ValueError\<close> by pathlib,
  \<open>OSError\<close> by \<open>subprocess.Popen\<close> and \<open>Path.mkdir\<close>).
\<close>

datatype exn = ValueError string | OSError string

text \<open>\<open>str(e)\<close> of an exception built from one message argument.\<close>

fun str_exn :: "exn \<Rightarrow> string" where
  "str_exn (ValueError m) = m"
| "str_exn (OSError m) = m"

subsection \<open>\<open>str(int)\<close>\<close>

definition digit_char :: "nat \<Rightarrow> char" where
  "digit_char d = char_of (48 + d)"

fun str_nat :: "nat \<Rightarrow> string" where
  "str_nat n = (if n < 10 then [digit_char n] else str_nat (n div 10) @ [digit_char (n mod 10)])"

declare str_nat.simps [simp del]

definition str_int :: "int \<Rightarrow> string" where
  "str_int i = (if i < 0 then CHR ''-'' # str_nat (nat (- i)) else str_nat (nat i))"

subsection \<open>\<open>str.strip()\<close> and the first element of \<open>str.splitlines()\<close>\<close>

text \<open>
  The whitespace and line-boundary characters of Python that lie in the ASCII range.
  (Python's \<open>str\<close> holds code points; here a \<open>char\<close> is a byte, so the non-ASCII
  members (code points 0x85, 0xA0, 0x2028, 0x2029 and the other Unicode spaces) are left out.)
\<close>

definition is_space :: "char \<Rightarrow> bool" where
  "is_space c \<longleftrightarrow> c \<in> set [CHR '' '', CHR 0x09, CHR 0x0A, CHR 0x0B, CHR 0x0C, CHR 0x0D,
                             CHR 0x1C, CHR 0x1D, CHR 0x1E, CHR 0x1F]"

definition is_linebreak :: "char \<Rightarrow> bool" where
  "is_linebreak c \<longleftrightarrow> c \<in> set [CHR 0x0A, CHR 0x0B, CHR 0x0C, CHR 0x0D, CHR 0x1C, CHR 0x1D, CHR 0x1E]"

definition strip :: "string \<Rightarrow> string" where
  "strip s = rev (dropWhile is_space (rev (dropWhile is_space s)))"

text \<open>\<open>s.splitlines()\<close> is empty exactly for the empty string; otherwise its first
  element is the text before the first line boundary.\<close>

definition first_line :: "string \<Rightarrow> string option" where
  "first_line s = (if s = [] then None else Some (takeWhile (\<lambda>c. \<not> is_linebreak c) s))"

subsection \<open>\<open>str.rfind\<close> and \<open>str.join\<close>\<close>

text \<open>\<open>s.rfind(c)\<close>: the index of the last occurrence, \<open>None\<close> for Python's \<open>-1\<close>.\<close>

fun rfind :: "char \<Rightarrow> string \<Rightarrow> nat option" where
  "rfind c [] = None"
| "rfind c (x # xs) =
     (case rfind c xs of
        Some i \<Rightarrow> Some (Suc i)
      | None \<Rightarrow> if x = c then Some 0 else None)"

fun str_join :: "string \<Rightarrow> string list \<Rightarrow> string" where
  "str_join sep [] = []"
| "str_join sep [x] = x"
| "str_join sep (x # y # ys) = x @ sep @ str_join sep (y # ys)"

section \<open>pathlib\<close>

text \<open>
  A \<open>pathlib\<close> path (POSIX flavour, no drive) is its root (\<open>''''\<close>, \<open>''/''\<close> or \<open>''//''\<close>)
  and the list of its components. The operations follow CPython's \<open>PurePath\<close>
  (the implementation of Python 3.8 to 3.11): \<open>name\<close>, \<open>suffix\<close>, \<open>stem\<close>
  (here \<open>path_name\<close>, \<open>path_suffix\<close>, \<open>path_stem\<close>),
  \<open>with_suffix\<close>, \<open>relative_to\<close>, \<open>/\<close>, \<open>parent\<close>, \<open>str\<close> and the constructor
  \<open>Path(s)\<close>. No component of a path object contains the separator.
\<close>

record path =
  root :: string
  names :: "string list"

fun split_sep :: "string \<Rightarrow> string list" where
  "split_sep [] = [[]]"
| "split_sep (c # cs) =
     (if c = CHR ''/'' then [] # split_sep cs
      else (case split_sep cs of [] \<Rightarrow> [[c]] | w # ws \<Rightarrow> (c # w) # ws))"

text \<open>\<open>_PosixFlavour.splitroot\<close>: exactly two leading slashes are kept as the root
  \<open>//\<close>; any other number of leading slashes is the root \<open>/\<close>.\<close>

definition splitroot :: "string \<Rightarrow> string \<times> string" where
  "splitroot part =
     (if part \<noteq> [] \<and> hd part = CHR ''/'' then
        (let stripped = dropWhile (\<lambda>c. c = CHR ''/'') part
         in if length part - length stripped = 2 then (''//'', stripped) else (''/'', stripped))
      else ('''', part))"

text \<open>\<open>Path(s)\<close> for one string argument: the components \<open>''''\<close> and \<open>''.''\<close> are dropped.\<close>

definition Path :: "string \<Rightarrow> path" where
  "Path s = (let (r, rel) = splitroot s
             in \<lparr>root = r, names = filter (\<lambda>x. x \<noteq> [] \<and> x \<noteq> ''.'') (split_sep rel)\<rparr>)"

definition path_name :: "path \<Rightarrow> string" where
  "path_name p = (if names p = [] then [] else last (names p))"

definition suffix_of :: "string \<Rightarrow> string" where
  "suffix_of nm =
     (case rfind CHR ''.'' nm of
        None \<Rightarrow> []
      | Some i \<Rightarrow> if 0 < i \<and> Suc i < length nm then drop i nm else [])"

definition stem_of :: "string \<Rightarrow> string" where
  "stem_of nm =
     (case rfind CHR ''.'' nm of
        None \<Rightarrow> nm
      | Some i \<Rightarrow> if 0 < i \<and> Suc i < length nm then take i nm else nm)"

definition path_suffix :: "path \<Rightarrow> string" where
  "path_suffix p = suffix_of (path_name p)"

definition path_stem :: "path \<Rightarrow> string" where
  "path_stem p = stem_of (path_name p)"

definition str_path :: "path \<Rightarrow> string" where
  "str_path p = (let s = root p @ str_join ''/'' (names p) in if s = [] then ''.'' else s)"

definition repr_path :: "path \<Rightarrow> string" where
  "repr_path p = ''PosixPath('' @ [CHR 0x27] @ str_path p @ [CHR 0x27] @ '')''"

definition with_suffix :: "path \<Rightarrow> string \<Rightarrow> exn + path" where
  "with_suffix p suf =
     (if CHR ''/'' \<in> set suf then Inl (ValueError (''Invalid suffix '' @ [CHR 0x27] @ suf @ [CHR 0x27]))
      else if (suf \<noteq> [] \<and> hd suf \<noteq> CHR ''.'') \<or> suf = ''.''
        then Inl (ValueError (''Invalid suffix '' @ [CHR 0x27] @ suf @ [CHR 0x27]))
      else if path_name p = [] then Inl (ValueError (repr_path p @ '' has an empty name''))
      else
        (let old_suffix = path_suffix p;
             nm = (if old_suffix = [] then path_name p @ suf
                   else take (length (path_name p) - length old_suffix) (path_name p) @ suf)
         in Inr (p\<lparr>names := butlast (names p) @ [nm]\<rparr>)))"

text \<open>\<open>self.relative_to(other)\<close>: both paths have the same root and the components of
  \<open>other\<close> are the first components of \<open>self\<close>; the result has no root.\<close>

definition relative_to :: "path \<Rightarrow> path \<Rightarrow> exn + path" where
  "relative_to p other =
     (let n = length (names other)
      in if root p = root other \<and> take n (names p) = names other
         then Inr \<lparr>root = [], names = drop n (names p)\<rparr>
         else Inl (ValueError ([CHR 0x27] @ str_path p @ [CHR 0x27] @ '' is not in the subpath of ''
                     @ [CHR 0x27] @ str_path other @ [CHR 0x27]
                     @ '' OR one path is relative and the other is absolute.'')))"

text \<open>\<open>self / key\<close> for a path \<open>key\<close>: the components of \<open>key\<close> are parsed again, which
  drops every component \<open>''.''\<close>; a rooted \<open>key\<close> replaces \<open>self\<close>.\<close>

definition joinpath :: "path \<Rightarrow> path \<Rightarrow> path" where
  "joinpath p key =
     (let parts2 = filter (\<lambda>x. x \<noteq> [] \<and> x \<noteq> ''.'') (names key)
      in if root key \<noteq> [] then \<lparr>root = root key, names = parts2\<rparr>
         else \<lparr>root = root p, names = names p @ parts2\<rparr>)"

definition path_parent :: "path \<Rightarrow> path" where
  "path_parent p = p\<lparr>names := butlast (names p)\<rparr>"

section \<open>FFmpeg helpers\<close>

text \<open>
  The outside world: what a child process started by \<open>subprocess.Popen\<close> returns
  (exit code, standard output, standard error) or the exception raised when it cannot be
  started, and whether \<open>mkdir(parents=True, exist_ok=True)\<close> raises. Every effectful
  function returns, next to its result, the list of effects it performed, in order.
\<close>

record world =
  popen :: "string list \<Rightarrow> exn + (int \<times> string \<times> string)"
  mkdir :: "path \<Rightarrow> exn option"

datatype effect = Spawn "string list" | Mkdir path

definition run_cmd :: "world \<Rightarrow> string list \<Rightarrow> (exn + (int \<times> string \<times> string)) \<times> effect list" where
  "run_cmd w cmd = (popen w cmd, [Spawn cmd])"

definition detect_audio_codec ::
  "world \<Rightarrow> path \<Rightarrow> string \<Rightarrow> (exn + string option) \<times> effect list" where
  "detect_audio_codec w file stream_selector =
     (let cmd = [''ffprobe'', ''-v'', ''error'',
                 ''-select_streams'', stream_selector,
                 ''-show_entries'', ''stream=codec_name'',
                 ''-of'', ''default=noprint_wrappers=1:nokey=1'',
                 str_path file];
          (r, fx) = run_cmd w cmd
      in case r of
           Inl e \<Rightarrow> (Inl e, fx)
         | Inr (code, out, err) \<Rightarrow>
             (if code = 0 then
                (case first_line (strip out) of
                   Some l \<Rightarrow> (Inr (Some (strip l)), fx)
                 | None \<Rightarrow> (Inr None, fx))
              else (Inr None, fx)))"

definition mapping :: "(string \<times> string) list" where
  "mapping = [
     (''aac'', ''.m4a''),
     (''mp3'', ''.mp3''),
     (''ac3'', ''.ac3''),
     (''eac3'', ''.eac3''),
     (''dts'', ''.dts''),
     (''opus'', ''.opus''),
     (''vorbis'', ''.ogg''),
     (''flac'', ''.flac''),
     (''pcm_s16le'', ''.wav''),
     (''truehd'', ''.thd'')]"

definition pick_copy_extension :: "string \<Rightarrow> string" where
  "pick_copy_extension codec = (case map_of mapping codec of Some e \<Rightarrow> e | None \<Rightarrow> ''.m4a'')"

text \<open>Truthiness of an \<open>Optional[int]\<close>: \<open>None\<close> and \<open>0\<close> are false.\<close>

fun truthy :: "int option \<Rightarrow> bool" where
  "truthy None = False"
| "truthy (Some n) = (n \<noteq> 0)"

text \<open>\<open>str(x)\<close> and \<open>f"{x}"\<close> of an \<open>Optional[int]\<close>.\<close>

fun str_opt_int :: "int option \<Rightarrow> string" where
  "str_opt_int None = ''None''"
| "str_opt_int (Some n) = str_int n"

definition build_ffmpeg_cmd ::
  "path \<Rightarrow> path \<Rightarrow> string \<Rightarrow> string \<Rightarrow> bool \<Rightarrow> int option \<Rightarrow> int option \<Rightarrow> bool \<Rightarrow> string list" where
  "build_ffmpeg_cmd src dst mode stream_selector loudnorm sample_rate bitrate_k use_gpu =
     (let base = [''ffmpeg'', ''-y''];
          base = (if use_gpu then base @ [''-hwaccel'', ''cuda''] else base);
          base = base @ [''-i'', str_path src, ''-vn'', ''-sn'', ''-dn'', ''-map'', ''0:'' @ stream_selector];
          af = (if loudnorm then [''loudnorm=I=-16:TP=-1.5:LRA=11''] else []);
          base =
            (if mode = ''COPY'' then base @ [''-c:a'', ''copy'']
             else if mode = ''MP3'' then
               (let base = base @ [''-c:a'', ''libmp3lame''];
                    base = (if truthy bitrate_k then base @ [''-b:a'', str_opt_int bitrate_k @ ''k''] else base)
                in if truthy sample_rate then base @ [''-ar'', str_opt_int sample_rate] else base)
             else if mode = ''AAC'' then
               (let base = base @ [''-c:a'', ''aac''];
                    base = (if truthy bitrate_k then base @ [''-b:a'', str_opt_int bitrate_k @ ''k'']
                            else base @ [''-q:a'', ''2''])
                in if truthy sample_rate then base @ [''-ar'', str_opt_int sample_rate] else base)
             else if mode = ''WAV'' then
               (let base = base @ [''-c:a'', ''pcm_s16le'', ''-ac'', ''2'']
                in if truthy sample_rate then base @ [''-ar'', str_opt_int sample_rate] else base)
             else base);
          base = (if af \<noteq> [] then base @ [''-af'', str_join '','' af] else base)
      in base @ [str_path dst])"

section \<open>Worker logic\<close>

text \<open>Sequencing of effectful steps: an exception ends the sequence, the effects performed
  so far are kept.\<close>

definition bind_fx ::
  "(exn + 'a) \<times> effect list \<Rightarrow> ('a \<Rightarrow> (exn + 'b) \<times> effect list) \<Rightarrow> (exn + 'b) \<times> effect list" where
  "bind_fx m f =
     (case m of
        (Inl e, fx) \<Rightarrow> (Inl e, fx)
      | (Inr a, fx) \<Rightarrow> (case f a of (r, fx') \<Rightarrow> (r, fx @ fx')))"

definition pure_fx :: "exn + 'a \<Rightarrow> (exn + 'a) \<times> effect list" where
  "pure_fx r = (r, [])"

text \<open>\<open>codec or "aac"\<close>: \<open>None\<close> and the empty string are false.\<close>

fun or_else :: "string option \<Rightarrow> string \<Rightarrow> string" where
  "or_else None d = d"
| "or_else (Some s) d = (if s = [] then d else s)"

definition make_out_path ::
  "world \<Rightarrow> path \<Rightarrow> path \<Rightarrow> path \<Rightarrow> bool \<Rightarrow> string \<Rightarrow> string \<Rightarrow> (exn + path) \<times> effect list" where
  "make_out_path w src input_root output_root preserve_tree mode stream_selector =
     bind_fx
       (pure_fx
          (if preserve_tree then
             (case relative_to src input_root of
                Inl e \<Rightarrow> Inl e
              | Inr rel \<Rightarrow> with_suffix rel [])
           else Inr (Path (path_stem src))))
       (\<lambda>stem.
          bind_fx
            (if mode = ''COPY'' then
               bind_fx (detect_audio_codec w src stream_selector)
                 (\<lambda>codec. pure_fx (Inr (pick_copy_extension (or_else codec ''aac''))))
             else if mode = ''MP3'' then pure_fx (Inr ''.mp3'')
             else if mode = ''AAC'' then pure_fx (Inr ''.m4a'')
             else pure_fx (Inr ''.wav''))
            (\<lambda>ext.
               bind_fx (pure_fx (with_suffix (joinpath output_root stem) ext))
                 (\<lambda>out_path.
                    (case mkdir w (path_parent out_path) of
                       Some e \<Rightarrow> Inl e
                     | None \<Rightarrow> Inr out_path,
                     [Mkdir (path_parent out_path)]))))"

type_synonym task_result = "path \<times> bool \<times> string"

text \<open>The body of the \<open>try\<close> statement of \<open>process_one\<close>.\<close>

definition process_one_try ::
  "world \<Rightarrow> path \<Rightarrow> path \<Rightarrow> path \<Rightarrow> bool \<Rightarrow> string \<Rightarrow> string \<Rightarrow> bool \<Rightarrow> int option \<Rightarrow> int option \<Rightarrow> bool
     \<Rightarrow> (exn + task_result) \<times> effect list" where
  "process_one_try w src input_root output_root preserve_tree mode stream_selector loudnorm
       sample_rate bitrate_k use_gpu =
     bind_fx (make_out_path w src input_root output_root preserve_tree mode stream_selector)
       (\<lambda>dst.
          let cmd = build_ffmpeg_cmd src dst mode stream_selector loudnorm sample_rate bitrate_k use_gpu
          in bind_fx (run_cmd w cmd)
               (\<lambda>(code, out, err).
                  if code \<noteq> 0 then pure_fx (Inr (src, False, strip err))
                  else pure_fx (Inr (src, True, str_path dst))))"

text \<open>\<open>process_one\<close>: the \<open>try\<close> body under \<open>except Exception as e\<close>. The result type still
  has room for an exception that leaves the function.\<close>

definition process_one ::
  "world \<Rightarrow> path \<Rightarrow> path \<Rightarrow> path \<Rightarrow> bool \<Rightarrow> string \<Rightarrow> string \<Rightarrow> bool \<Rightarrow> int option \<Rightarrow> int option \<Rightarrow> bool
     \<Rightarrow> (exn + task_result) \<times> effect list" where
  "process_one w src input_root output_root preserve_tree mode stream_selector loudnorm
       sample_rate bitrate_k use_gpu =
     (case process_one_try w src input_root output_root preserve_tree mode stream_selector loudnorm
             sample_rate bitrate_k use_gpu of
        (Inl e, fx) \<Rightarrow> (Inr (src, False, str_exn e), fx)
      | (Inr r, fx) \<Rightarrow> (Inr r, fx))"

section \<open>The stream selector built by \<open>App.start\<close>\<close>

definition selector_by_index :: "int \<Rightarrow> string" where
  "selector_by_index idx = ''a:'' @ str_int idx"

definition selector_by_language :: "string \<Rightarrow> string" where
  "selector_by_language lang_var =
     (let lang = (if strip lang_var = [] then ''eng'' else strip lang_var)
      in ''a:m:language:'' @ lang)"

section \<open>The batch dispatcher \<open>App._run_batch\<close>\<close>

text \<open>
  The dictionary \<open>args\<close> that \<open>App.start\<close> hands to \<open>_run_batch\<close>.
\<close>

record job_args =
  input_root :: path
  output_root :: path
  preserve_tree :: bool
  mode :: string
  stream_selector :: string
  loudnorm :: bool
  sample_rate :: "int option"
  bitrate_k :: "int option"
  use_gpu :: bool

text \<open>The entries of \<open>ui_queue\<close>: \<open>("log", text)\<close>, \<open>("status", text)\<close> and
  \<open>("progress", (value, total))\<close>.\<close>

datatype ui_event = Log string | Status string | Progress nat nat

text \<open>
  One batch runs on several threads: the thread of \<open>_run_batch\<close> (its \<open>for\<close> loop over
  \<open>as_completed\<close>, the exit of the \<open>with\<close> block, the \<open>finally\<close> block), the workers of
  the pool, and the GUI thread, where \<open>cancel\<close> sets \<open>stop_event\<close>. An execution is an
  interleaving of their steps, given as a list of events; \<open>step\<close> is \<open>None\<close> where the
  event cannot happen in the state.

  \<^item> \<open>Cancel\<close>: \<open>App.cancel\<close> (the Cancel button is enabled until the \<open>finally\<close> block).
  \<^item> \<open>Start\<close>: a free worker takes the next submitted task from the pool's queue and runs
    \<open>task\<close>, which reads \<open>stop_event\<close> first. The external processes of one task run
    within this step; their outcome is fixed by the \<open>world\<close>.
  \<^item> \<open>Complete k\<close>: the \<open>k\<close>-th running task returns; its future is completed.
  \<^item> \<open>Yield k\<close>: \<open>as_completed\<close> hands a completed future to the loop, whose body runs.
  \<^item> \<open>LoopEnd\<close>: every future has been handed out; the loop ends.
  \<^item> \<open>Finalize\<close>: the \<open>with\<close> block has waited for every submitted task
    (\<open>shutdown(wait=True)\<close>); the \<open>except\<close> and \<open>finally\<close> blocks run.

  The counter \<open>done\<close> of the source is \<open>done_count\<close>, \<open>total\<close> is \<open>total_files\<close>
  (both names are taken in Isabelle). The three \<open>config\<close> calls on the buttons in the
  \<open>finally\<close> block are not modelled.
\<close>

datatype pc = Looping | Exiting "exn option" | Finished

datatype event = Cancel | Start | Complete nat | Yield nat | LoopEnd | Finalize

record run_state =
  stop_event :: bool
  work_queue :: "path list"
  running :: "(exn + task_result) list"
  completed :: "(exn + task_result) list"
  pc :: pc
  ok_count :: nat
  fail_count :: nat
  done_count :: nat
  total_files :: nat
  ui_queue :: "ui_event list"
  effects :: "effect list"

definition task :: "world \<Rightarrow> job_args \<Rightarrow> bool \<Rightarrow> path \<Rightarrow> (exn + task_result) \<times> effect list" where
  "task w args stop f =
     (if stop then (Inr (f, False, ''Dibatalkan.''), [])
      else process_one w f (input_root args) (output_root args) (preserve_tree args) (mode args)
             (stream_selector args) (loudnorm args) (sample_rate args) (bitrate_k args) (use_gpu args))"

definition remove_nth :: "nat \<Rightarrow> 'a list \<Rightarrow> 'a list" where
  "remove_nth k xs = take k xs @ drop (Suc k) xs"

text \<open>The body of the \<open>for\<close> loop, for the future \<open>fut\<close> handed out by \<open>as_completed\<close>.\<close>

definition loop_body :: "run_state \<Rightarrow> exn + task_result \<Rightarrow> run_state" where
  "loop_body s fut =
     (if stop_event s then s\<lparr>pc := Exiting None\<rparr>
      else
        (case fut of
           Inl e \<Rightarrow> s\<lparr>pc := Exiting (Some e)\<rparr>
         | Inr (src, success, msg) \<Rightarrow>
             (let s = s\<lparr>done_count := done_count s + 1\<rparr>;
                  s = (if success then
                         s\<lparr>ok_count := ok_count s + 1,
                           ui_queue := ui_queue s @ [Log (''[OK] '' @ path_name src @ '' -> '' @ msg)]\<rparr>
                       else
                         s\<lparr>fail_count := fail_count s + 1,
                           ui_queue := ui_queue s @ [Log (''[FAIL] '' @ path_name src @ '' :: '' @ msg)]\<rparr>)
              in s\<lparr>ui_queue := ui_queue s @
                     [Progress (done_count s) (total_files s),
                      Status (''Proses: '' @ str_nat (done_count s) @ ''/'' @ str_nat (total_files s)
                              @ '' | OK: '' @ str_nat (ok_count s)
                              @ '' | Gagal: '' @ str_nat (fail_count s))]\<rparr>)))"

text \<open>The \<open>except Exception\<close> and \<open>finally\<close> blocks.\<close>

definition finally_block :: "run_state \<Rightarrow> run_state" where
  "finally_block s =
     (let s = (case pc s of
                 Exiting (Some e) \<Rightarrow> s\<lparr>ui_queue := ui_queue s @ [Log (''[ERROR] '' @ str_exn e)]\<rparr>
               | _ \<Rightarrow> s);
          s = (if stop_event s then
                 s\<lparr>ui_queue := ui_queue s @
                      [Status (''Dibatalkan. OK: '' @ str_nat (ok_count s) @ '', Gagal: '' @ str_nat (fail_count s)),
                       Log ''== Dibatalkan =='']\<rparr>
               else
                 s\<lparr>ui_queue := ui_queue s @
                      [Status (''Selesai. OK: '' @ str_nat (ok_count s) @ '', Gagal: '' @ str_nat (fail_count s)),
                       Log ''== Selesai =='']\<rparr>)
      in s\<lparr>pc := Finished\<rparr>)"

fun step :: "world \<Rightarrow> job_args \<Rightarrow> int \<Rightarrow> run_state \<Rightarrow> event \<Rightarrow> run_state option" where
  "step w args workers s Cancel =
     (if pc s = Finished then None
      else Some (s\<lparr>stop_event := True, ui_queue := ui_queue s @ [Status ''Membatalkan...'']\<rparr>))"
| "step w args workers s Start =
     (case work_queue s of
        [] \<Rightarrow> None
      | f # fs \<Rightarrow>
          if int (length (running s)) < workers then
            (case task w args (stop_event s) f of
               (r, fx) \<Rightarrow> Some (s\<lparr>work_queue := fs, running := running s @ [r],
                                  effects := effects s @ fx\<rparr>))
          else None)"
| "step w args workers s (Complete k) =
     (if k < length (running s) then
        Some (s\<lparr>running := remove_nth k (running s), completed := completed s @ [running s ! k]\<rparr>)
      else None)"
| "step w args workers s (Yield k) =
     (if pc s = Looping \<and> k < length (completed s) then
        Some (loop_body (s\<lparr>completed := remove_nth k (completed s)\<rparr>) (completed s ! k))
      else None)"
| "step w args workers s LoopEnd =
     (if pc s = Looping \<and> work_queue s = [] \<and> running s = [] \<and> completed s = [] then
        Some (s\<lparr>pc := Exiting None\<rparr>)
      else None)"
| "step w args workers s Finalize =
     (case pc s of
        Exiting eo \<Rightarrow>
          if work_queue s = [] \<and> running s = [] then Some (finally_block s) else None
      | _ \<Rightarrow> None)"

text \<open>The state when the loop is entered: every file submitted, the flag cleared by
  \<open>App.start\<close>. \<open>ThreadPoolExecutor\<close> raises \<open>ValueError\<close> for \<open>max_workers <= 0\<close>.\<close>

definition run_batch_init :: "path list \<Rightarrow> int \<Rightarrow> run_state" where
  "run_batch_init files workers =
     \<lparr>stop_event = False,
      work_queue = (if workers \<le> 0 then [] else files),
      running = [], completed = [],
      pc = (if workers \<le> 0 then Exiting (Some (ValueError ''max_workers must be greater than 0''))
            else Looping),
      ok_count = 0, fail_count = 0, done_count = 0,
      total_files = length files,
      ui_queue = [], effects = []\<rparr>"

fun run :: "world \<Rightarrow> job_args \<Rightarrow> int \<Rightarrow> run_state \<Rightarrow> event list \<Rightarrow> run_state option" where
  "run w args workers s [] = Some s"
| "run w args workers s (e # es) =
     (case step w args workers s e of
        None \<Rightarrow> None
      | Some s' \<Rightarrow> run w args workers s' es)"

definition run_batch :: "world \<Rightarrow> job_args \<Rightarrow> path list \<Rightarrow> int \<Rightarrow> event list \<Rightarrow> run_state option" where
  "run_batch w args files workers sched = run w args workers (run_batch_init files workers) sched"

text \<open>The log lines that report a Task Result.\<close>

definition is_result_line :: "ui_event \<Rightarrow> bool" where
  "is_result_line ev =
     (case ev of
        Log t \<Rightarrow> take 5 t = ''[OK] '' \<or> take 7 t = ''[FAIL] ''
      | _ \<Rightarrow> False)"

definition result_line :: "task_result \<Rightarrow> ui_event" where
  "result_line r =
     (case r of (src, success, msg) \<Rightarrow>
        if success then Log (''[OK] '' @ path_name src @ '' -> '' @ msg)
        else Log (''[FAIL] '' @ path_name src @ '' :: '' @ msg))"

section \<open>Notions used to state the properties\<close>

text \<open>\<open>adjacent k v xs\<close>: the argument \<open>k\<close> is immediately followed by \<open>v\<close> in \<open>xs\<close>,
  the way an option and its value stand in a command line.\<close>

fun adjacent :: "'a \<Rightarrow> 'a \<Rightarrow> 'a list \<Rightarrow> bool" where
  "adjacent k v (x # y # ys) = ((x = k \<and> y = v) \<or> adjacent k v (y # ys))"
| "adjacent k v _ = False"

text \<open>A suffix that \<open>with_suffix\<close> accepts.\<close>

definition valid_suffix :: "string \<Rightarrow> bool" where
  "valid_suffix suf \<longleftrightarrow> CHR ''/'' \<notin> set suf \<and> (suf = [] \<or> hd suf = CHR ''.'') \<and> suf \<noteq> ''.''"

text \<open>The extension that \<open>make_out_path\<close> chooses (its \<open>if\<close>/\<open>elif\<close> chain over the
  mode), or the exception raised while probing the codec.\<close>

definition target_extension :: "world \<Rightarrow> path \<Rightarrow> string \<Rightarrow> string \<Rightarrow> exn + string" where
  "target_extension w src md sel =
     (if md = ''COPY'' then
        (case fst (detect_audio_codec w src sel) of
           Inl e \<Rightarrow> Inl e
         | Inr codec \<Rightarrow> Inr (pick_copy_extension (or_else codec ''aac'')))
      else if md = ''MP3'' then Inr ''.mp3''
      else if md = ''AAC'' then Inr ''.m4a''
      else Inr ''.wav'')"

subsection \<open>Notions for the dispatcher\<close>

text \<open>The log line that the dispatcher writes for a completed future: the result line of
  the loop body, or the line of the \<open>except\<close> block when the task raised.\<close>

definition fut_line :: "exn + task_result \<Rightarrow> ui_event" where
  "fut_line fut = (case fut of Inr r \<Rightarrow> result_line r | Inl e \<Rightarrow> Log (''[ERROR] '' @ str_exn e))"

text \<open>What the task of a file returns when the flag is not set.\<close>

definition uncancelled :: "world \<Rightarrow> job_args \<Rightarrow> path \<Rightarrow> exn + task_result" where
  "uncancelled w args f = fst (task w args False f)"

text \<open>The counters agree, and no more results are counted than files were submitted.\<close>

definition counters_inv :: "run_state \<Rightarrow> bool" where
  "counters_inv s \<longleftrightarrow>
     done_count s = ok_count s + fail_count s \<and>
     done_count s + length (completed s) + length (running s) + length (work_queue s) \<le> total_files s"


text \<open>In a run without cancellation every file is in exactly one place: reported in the
  log, completed, running or waiting; no task has raised.\<close>

definition all_accounted :: "world \<Rightarrow> job_args \<Rightarrow> path list \<Rightarrow> run_state \<Rightarrow> bool" where
  "all_accounted w args files s \<longleftrightarrow>
     \<not> stop_event s \<and>
     (pc s = Looping \<or>
      ((pc s = Exiting None \<or> pc s = Finished) \<and> work_queue s = [] \<and> running s = [] \<and> completed s = [])) \<and>
     (\<forall>fut\<in>set (running s @ completed s). \<exists>r. fut = Inr r) \<and>
     done_count s = length (filter is_result_line (ui_queue s)) \<and>
     mset (filter is_result_line (ui_queue s)) + mset (map fut_line (running s))
       + mset (map fut_line (completed s))
       + mset (map (\<lambda>f. fut_line (uncancelled w args f)) (work_queue s))
     = mset (map (\<lambda>f. fut_line (uncancelled w args f)) files)"

text \<open>The loop is waiting and no task is under way.\<close>

definition idle :: "run_state \<Rightarrow> bool" where
  "idle s \<longleftrightarrow> \<not> stop_event s \<and> pc s = Looping \<and> running s = [] \<and> completed s = []"

text \<open>The schedule that runs the files one after the other.\<close>

definition sequential :: "'a list \<Rightarrow> event list" where
  "sequential files = concat (map (\<lambda>f. [Start, Complete 0, Yield 0]) files) @ [LoopEnd, Finalize]"

text \<open>What is left to do: a waiting task takes three steps (start, complete, hand to the
  loop), a running one two, a completed one one.\<close>

definition pending_work :: "run_state \<Rightarrow> nat" where
  "pending_work s = 3 * length (work_queue s) + 2 * length (running s) + length (completed s)"

text \<open>The number of steps a batch can still take, \<open>cancel\<close> apart.\<close>

definition batch_rank :: "run_state \<Rightarrow> nat" where
  "batch_rank s = pending_work s + (case pc s of Looping \<Rightarrow> 2 | Exiting eo \<Rightarrow> 1 | Finished \<Rightarrow> 0)"

subsection \<open>Sample inputs\<close>

text \<open>A world where every child process exits with code 1 and prints nothing, and one
  where every child process succeeds and prints \<open>aac\<close>; directories can be created.\<close>

definition world_fail :: world where
  "world_fail = \<lparr>popen = (\<lambda>c. Inr (1, [], [])), mkdir = (\<lambda>p. None)\<rparr>"

definition world_ok :: world where
  "world_ok = \<lparr>popen = (\<lambda>c. Inr (0, ''aac'', [])), mkdir = (\<lambda>p. None)\<rparr>"

text \<open>A world where no child process can be started.\<close>

definition world_missing :: world where
  "world_missing = \<lparr>popen = (\<lambda>c. Inl (OSError ''[Errno 2] No such file or directory'')), mkdir = (\<lambda>p. None)\<rparr>"

text \<open>A job, two files, and the states that some schedules of the batch reach.\<close>

definition sample_args :: job_args where
  "sample_args = \<lparr>input_root = Path ''/in'', output_root = Path ''/out'', preserve_tree = True,
     mode = ''MP3'', stream_selector = ''a:0'', loudnorm = False, sample_rate = None,
     bitrate_k = Some 192, use_gpu = False\<rparr>"

definition sample_files :: "path list" where
  "sample_files = [Path ''/in/a.mp4'', Path ''/in/b.mkv'']"

definition state_one_completed :: run_state where
  "state_one_completed = the (run_batch world_ok sample_args sample_files 1 [Start, Complete 0])"

definition state_one_yielded :: run_state where
  "state_one_yielded = the (step world_ok sample_args 1 state_one_completed (Yield 0))"





definition state_sequential_final :: run_state where
  "state_sequential_final = the (run_batch world_ok sample_args sample_files 1 (sequential sample_files))"

definition state_two_running :: run_state where
  "state_two_running = the (run_batch world_ok sample_args sample_files 2 [Start, Start])"







section \<open>Facts about the string functions\<close>

lemma digit_char_range:
  "d < 10 \<Longrightarrow> 48 \<le> (of_char (digit_char d) :: nat) \<and> (of_char (digit_char d) :: nat) \<le> 57"
  by (simp add: digit_char_def)

lemma str_nat_digits:
  "c \<in> set (str_nat n) \<Longrightarrow> 48 \<le> (of_char c :: nat) \<and> (of_char c :: nat) \<le> 57"
proof (induction n arbitrary: c rule: str_nat.induct)
  case (1 n)
  show ?case
  proof (cases "n < 10")
    case True
    with "1.prems" have "c = digit_char n" by (simp add: str_nat.simps [of n])
    with True show ?thesis using digit_char_range by blast
  next
    case False
    with "1.prems" have "c \<in> set (str_nat (n div 10)) \<or> c = digit_char (n mod 10)"
      by (auto simp: str_nat.simps [of n])
    then show ?thesis
    proof
      assume "c \<in> set (str_nat (n div 10))"
      with "1.IH" False show ?thesis by blast
    next
      assume "c = digit_char (n mod 10)"
      then show ?thesis using digit_char_range [of "n mod 10"] by simp
    qed
  qed
qed

lemma str_nat_nonempty: "str_nat n \<noteq> []"
  by (subst str_nat.simps) simp

lemma str_int_chars:
  "c \<in> set (str_int i) \<Longrightarrow> c = CHR ''-'' \<or> (48 \<le> (of_char c :: nat) \<and> (of_char c :: nat) \<le> 57)"
  by (auto simp: str_int_def dest: str_nat_digits split: if_splits)

lemma str_int_not_option [simp]:
  "str_int i \<noteq> ''-af''" "str_int i \<noteq> ''-map''" "str_int i \<noteq> ''-c:v''" "str_int i \<noteq> ''-c:s''"
  "str_int i \<noteq> ''-c:a''" "str_int i \<noteq> ''-ac''"
  using str_int_chars [of "CHR ''a''" i] str_int_chars [of "CHR ''c''" i] by auto

lemma snoc_k_not_option [simp]:
  "s @ ''k'' \<noteq> ''-af''" "s @ ''k'' \<noteq> ''-map''" "s @ ''k'' \<noteq> ''-c:v''" "s @ ''k'' \<noteq> ''-c:s''"
  "s @ ''k'' \<noteq> ''-c:a''" "s @ ''k'' \<noteq> ''-ac''"
proof -
  have *: "\<And>t. last t \<noteq> CHR ''k'' \<Longrightarrow> s @ ''k'' \<noteq> t" by auto
  show "s @ ''k'' \<noteq> ''-af''" "s @ ''k'' \<noteq> ''-map''" "s @ ''k'' \<noteq> ''-c:v''" "s @ ''k'' \<noteq> ''-c:s''"
    "s @ ''k'' \<noteq> ''-c:a''" "s @ ''k'' \<noteq> ''-ac''"
    by (rule *, simp)+
qed

lemmas str_int_not_option_sym [simp] = str_int_not_option [THEN not_sym]

lemmas snoc_k_not_option_sym [simp] = snoc_k_not_option [THEN not_sym]

lemma truthy_str [simp]: "truthy x \<Longrightarrow> str_opt_int x = str_int (the x)"
  by (cases x) auto

section \<open>Facts about pathlib and \<open>make_out_path\<close>\<close>

lemma rfind_None: "rfind c s = None \<longleftrightarrow> c \<notin> set s"
  by (induction s) (auto split: option.splits)

lemma rfind_less: "rfind c s = Some i \<Longrightarrow> i < length s"
  by (induction s arbitrary: i) (auto split: option.splits if_splits)

lemma rfind_append: "c \<notin> set b \<Longrightarrow> rfind c (a @ c # b) = Some (length a)"
  by (induction a) (auto simp: rfind_None split: option.splits)

lemma stem_suffix_append: "stem_of nm @ suffix_of nm = nm"
  by (auto simp: stem_of_def suffix_of_def split: option.splits)

lemma take_suffix_stem: "take (length nm - length (suffix_of nm)) nm = stem_of nm"
  by (auto simp: stem_of_def suffix_of_def dest: rfind_less split: option.splits)

lemma no_suffix_stem: "suffix_of nm = [] \<Longrightarrow> stem_of nm = nm"
  using stem_suffix_append [of nm] by simp

lemma stem_of_nonempty: "nm \<noteq> [] \<Longrightarrow> stem_of nm \<noteq> []"
  by (auto simp: stem_of_def split: option.splits)

lemma stem_of_dotted:
  "a \<noteq> [] \<Longrightarrow> b \<noteq> [] \<Longrightarrow> CHR ''.'' \<notin> set b \<Longrightarrow> stem_of (a @ CHR ''.'' # b) = a"
  by (cases b) (auto simp: stem_of_def rfind_append)

lemma stem_of_no_sep: "CHR ''/'' \<notin> set nm \<Longrightarrow> CHR ''/'' \<notin> set (stem_of nm)"
  by (auto simp: stem_of_def split: option.splits dest: in_set_takeD)

lemma with_suffix_ok:
  "valid_suffix suf \<Longrightarrow> names p \<noteq> [] \<Longrightarrow> last (names p) \<noteq> [] \<Longrightarrow>
   with_suffix p suf = Inr (p\<lparr>names := butlast (names p) @ [stem_of (last (names p)) @ suf]\<rparr>)"
  by (auto simp: with_suffix_def valid_suffix_def path_name_def path_suffix_def Let_def
        take_suffix_stem no_suffix_stem)

lemma split_sep_no_sep: "CHR ''/'' \<notin> set s \<Longrightarrow> split_sep s = [s]"
  by (induction s) auto

lemma Path_single:
  "CHR ''/'' \<notin> set s \<Longrightarrow> s \<noteq> [] \<Longrightarrow> s \<noteq> ''.'' \<Longrightarrow> Path s = \<lparr>root = [], names = [s]\<rparr>"
  by (cases s) (auto simp: Path_def splitroot_def split_sep_no_sep)

lemma pick_copy_extension_valid: "valid_suffix (pick_copy_extension c)"
proof -
  have "pick_copy_extension c \<in> set (''.m4a'' # map snd mapping)"
    by (auto simp: pick_copy_extension_def split: option.splits dest!: map_of_SomeD intro: rev_image_eqI)
  then show ?thesis by (auto simp: mapping_def valid_suffix_def)
qed

lemma target_extension_valid: "target_extension w src md sel = Inr ext \<Longrightarrow> valid_suffix ext"
  by (auto simp: target_extension_def pick_copy_extension_valid split: if_splits sum.splits)
     (simp_all add: valid_suffix_def)

lemma fst_bind_fx: "fst (bind_fx m f) = (case fst m of Inl e \<Rightarrow> Inl e | Inr a \<Rightarrow> fst (f a))"
  by (cases m) (auto simp: bind_fx_def split: sum.splits prod.splits)

lemma fst_pure_fx [simp]: "fst (pure_fx r) = r"
  by (simp add: pure_fx_def)

lemma make_out_path_fst:
  "fst (make_out_path w src inp outp pt md sel) =
     (case (if pt then (case relative_to src inp of Inl e \<Rightarrow> Inl e | Inr rel \<Rightarrow> with_suffix rel [])
            else Inr (Path (path_stem src))) of
        Inl e \<Rightarrow> Inl e
      | Inr stem \<Rightarrow>
          (case target_extension w src md sel of
             Inl e \<Rightarrow> Inl e
           | Inr ext \<Rightarrow>
               (case with_suffix (joinpath outp stem) ext of
                  Inl e \<Rightarrow> Inl e
                | Inr out_path \<Rightarrow>
                    (case mkdir w (path_parent out_path) of
                       Some e \<Rightarrow> Inl e
                     | None \<Rightarrow> Inr out_path))))"
proof -
  have ext: "fst (if md = ''COPY'' then
               bind_fx (detect_audio_codec w src sel)
                 (\<lambda>codec. pure_fx (Inr (pick_copy_extension (or_else codec ''aac''))))
             else if md = ''MP3'' then pure_fx (Inr ''.mp3'')
             else if md = ''AAC'' then pure_fx (Inr ''.m4a'')
             else pure_fx (Inr ''.wav'')) = target_extension w src md sel"
    by (simp add: target_extension_def fst_bind_fx split: sum.splits)
  show ?thesis
    unfolding make_out_path_def
    by (simp add: fst_bind_fx ext cong: sum.case_cong option.case_cong)
qed

lemma make_out_path_layout:
  assumes src: "root src = root inp" "names src = names inp @ dirs @ [nm]"
    and dirs: "\<forall>d\<in>set dirs. d \<noteq> [] \<and> d \<noteq> ''.''"
    and nm: "nm \<noteq> []" "CHR ''/'' \<notin> set nm" "stem_of nm \<noteq> ''.''"
  shows "fst (make_out_path w src inp outp pt md sel) =
     (case target_extension w src md sel of
        Inl e \<Rightarrow> Inl e
      | Inr ext \<Rightarrow>
          (case mkdir w \<lparr>root = root outp, names = names outp @ (if pt then dirs else [])\<rparr> of
             Some e \<Rightarrow> Inl e
           | None \<Rightarrow> Inr \<lparr>root = root outp,
                          names = names outp @ (if pt then dirs else []) @ [stem_of (stem_of nm) @ ext]\<rparr>))"
proof -
  let ?st = "stem_of nm"
  let ?ds = "if pt then dirs else []"
  have st: "?st \<noteq> []" "CHR ''/'' \<notin> set ?st"
    using nm by (simp_all add: stem_of_nonempty stem_of_no_sep)
  have rel: "relative_to src inp = Inr \<lparr>root = [], names = dirs @ [nm]\<rparr>"
    using src by (simp add: relative_to_def)
  have ws: "with_suffix \<lparr>root = [], names = dirs @ [nm]\<rparr> [] = Inr \<lparr>root = [], names = dirs @ [?st]\<rparr>"
    using nm by (simp add: with_suffix_ok valid_suffix_def)
  have flat: "Path (path_stem src) = \<lparr>root = [], names = [?st]\<rparr>"
    using src st nm by (simp add: path_stem_def path_name_def Path_single)
  have stem: "(if pt then (case relative_to src inp of Inl e \<Rightarrow> Inl e | Inr rel \<Rightarrow> with_suffix rel [])
               else Inr (Path (path_stem src))) = Inr \<lparr>root = [], names = ?ds @ [?st]\<rparr>"
    by (simp add: rel ws flat)
  have fil: "filter (\<lambda>x. x \<noteq> [] \<and> x \<noteq> ''.'') ?ds = ?ds"
    using dirs by (simp add: filter_id_conv)
  have jp: "joinpath outp \<lparr>root = [], names = ?ds @ [?st]\<rparr> =
      \<lparr>root = root outp, names = names outp @ ?ds @ [?st]\<rparr>"
    using st nm fil by (simp add: joinpath_def)
  have out: "with_suffix (joinpath outp \<lparr>root = [], names = ?ds @ [?st]\<rparr>) ext =
      Inr \<lparr>root = root outp, names = names outp @ ?ds @ [stem_of ?st @ ext]\<rparr>"
    if "valid_suffix ext" for ext
    unfolding jp using st that with_suffix_ok [of ext "\<lparr>root = root outp, names = names outp @ ?ds @ [?st]\<rparr>"]
    by (simp add: butlast_append)
  have par: "path_parent \<lparr>root = root outp, names = names outp @ ?ds @ [x]\<rparr> =
      \<lparr>root = root outp, names = names outp @ ?ds\<rparr>" for x
    by (simp add: path_parent_def butlast_append)
  show ?thesis
  proof (cases "target_extension w src md sel")
    case (Inl e)
    then show ?thesis by (simp add: make_out_path_fst stem)
  next
    case (Inr ext)
    then have v: "valid_suffix ext" by (rule target_extension_valid)
    show ?thesis
      by (simp only: make_out_path_fst stem Inr out [OF v] par sum.case)
  qed
qed

lemma stem_of_whole:
  "(\<forall>i. rfind CHR ''.'' st = Some i \<longrightarrow> i = 0 \<or> Suc i = length st) \<Longrightarrow> stem_of st = st"
  by (auto simp: stem_of_def split: option.splits)

section \<open>Command Builder\<close>

text \<open>
  C4. For every mode, stream selector, sample rate, bitrate, GPU flag, source and
  destination, the command built by \<open>build_ffmpeg_cmd\<close> holds the option \<open>-af\<close> with the
  fixed value \<open>loudnorm=I=-16:TP=-1.5:LRA=11\<close> (EBU R128: integrated loudness -16 LUFS,
  true peak -1.5 dBTP, loudness range 11 LU) if and only if the loudness flag is true.
\<close>

theorem build_ffmpeg_cmd_loudnorm_iff:
  "adjacent ''-af'' ''loudnorm=I=-16:TP=-1.5:LRA=11''
     (build_ffmpeg_cmd src dst md sel ln sr br gpu) \<longleftrightarrow> ln"
  by (simp add: build_ffmpeg_cmd_def Let_def)

text \<open>
  C5. For every mode and input, the command is the fixed head (with the hardware flag
  when asked for), then \<open>-i\<close> and the source, the three flags \<open>-vn -sn -dn\<close> that
  suppress video, subtitle and data streams, one \<open>-map\<close> whose value is \<open>0:\<close> followed by
  the stream selector as given, then the options of the mode and the destination. The
  options of the mode hold no further \<open>-map\<close> and no video or subtitle codec option, so
  the selector's stream is the only one mapped. The selector that \<open>App.start\<close> builds from
  an index or a language names an audio stream (\<open>a:\<close>).
\<close>

theorem build_ffmpeg_cmd_maps_one_audio_stream:
  "(\<exists>post. build_ffmpeg_cmd src dst md sel ln sr br gpu =
      ([''ffmpeg'', ''-y''] @ (if gpu then [''-hwaccel'', ''cuda''] else []))
      @ [''-i'', str_path src, ''-vn'', ''-sn'', ''-dn'', ''-map'', ''0:'' @ sel] @ post @ [str_path dst]
    \<and> ''-map'' \<notin> set post \<and> ''-c:v'' \<notin> set post \<and> ''-c:s'' \<notin> set post)
   \<and> ''0:'' @ selector_by_index idx = ''0:a:'' @ str_int idx
   \<and> ''0:'' @ selector_by_language lang =
       ''0:a:m:language:'' @ (if strip lang = [] then ''eng'' else strip lang)"
  by (simp add: build_ffmpeg_cmd_def Let_def selector_by_index_def selector_by_language_def)

text \<open>
  C6. In mode WAV the command selects the codec \<open>pcm_s16le\<close> (16-bit signed PCM) and
  forces 2 channels (\<open>-ac 2\<close>), whatever the other options are; what follows holds no
  other codec or channel option.
\<close>

theorem build_ffmpeg_cmd_wav:
  "\<exists>post. build_ffmpeg_cmd src dst ''WAV'' sel ln sr br gpu =
      ([''ffmpeg'', ''-y''] @ (if gpu then [''-hwaccel'', ''cuda''] else []))
      @ [''-i'', str_path src, ''-vn'', ''-sn'', ''-dn'', ''-map'', ''0:'' @ sel,
         ''-c:a'', ''pcm_s16le'', ''-ac'', ''2''] @ post @ [str_path dst]
    \<and> ''-c:a'' \<notin> set post \<and> ''-ac'' \<notin> set post"
  by (simp add: build_ffmpeg_cmd_def Let_def)

section \<open>Path Resolver\<close>

text \<open>
  C7. The codec to extension mapping is total: each of the ten codecs of the table has its
  extension, every other codec name has \<open>.m4a\<close>, and so has the absent codec: \<open>None\<close>
  becomes \<open>aac\<close> in \<open>make_out_path\<close>, so that in mode COPY a file whose codec is not
  detected gets the path it gets in mode AAC.
\<close>

theorem pick_copy_extension_total:
  "pick_copy_extension ''aac'' = ''.m4a'' \<and>
   pick_copy_extension ''mp3'' = ''.mp3'' \<and>
   pick_copy_extension ''ac3'' = ''.ac3'' \<and>
   pick_copy_extension ''eac3'' = ''.eac3'' \<and>
   pick_copy_extension ''dts'' = ''.dts'' \<and>
   pick_copy_extension ''opus'' = ''.opus'' \<and>
   pick_copy_extension ''vorbis'' = ''.ogg'' \<and>
   pick_copy_extension ''flac'' = ''.flac'' \<and>
   pick_copy_extension ''pcm_s16le'' = ''.wav'' \<and>
   pick_copy_extension ''truehd'' = ''.thd'' \<and>
   (codec \<notin> set [''aac'', ''mp3'', ''ac3'', ''eac3'', ''dts'', ''opus'', ''vorbis'', ''flac'',
                   ''pcm_s16le'', ''truehd''] \<longrightarrow> pick_copy_extension codec = ''.m4a'') \<and>
   pick_copy_extension (or_else None ''aac'') = ''.m4a'' \<and>
   (fst (detect_audio_codec w src sel) = Inr None \<longrightarrow>
      fst (make_out_path w src inp outp pt ''COPY'' sel) = fst (make_out_path w src inp outp pt ''AAC'' sel))"
proof -
  have tbl: "pick_copy_extension ''aac'' = ''.m4a''" "pick_copy_extension ''mp3'' = ''.mp3''"
    "pick_copy_extension ''ac3'' = ''.ac3''" "pick_copy_extension ''eac3'' = ''.eac3''"
    "pick_copy_extension ''dts'' = ''.dts''" "pick_copy_extension ''opus'' = ''.opus''"
    "pick_copy_extension ''vorbis'' = ''.ogg''" "pick_copy_extension ''flac'' = ''.flac''"
    "pick_copy_extension ''pcm_s16le'' = ''.wav''" "pick_copy_extension ''truehd'' = ''.thd''"
    by (simp_all add: pick_copy_extension_def mapping_def)
  have dflt: "codec \<notin> set [''aac'', ''mp3'', ''ac3'', ''eac3'', ''dts'', ''opus'', ''vorbis'', ''flac'',
                   ''pcm_s16le'', ''truehd''] \<longrightarrow> pick_copy_extension codec = ''.m4a''"
    by (simp add: pick_copy_extension_def mapping_def)
  have absent: "fst (detect_audio_codec w src sel) = Inr None \<longrightarrow>
      fst (make_out_path w src inp outp pt ''COPY'' sel) = fst (make_out_path w src inp outp pt ''AAC'' sel)"
    by (cases "detect_audio_codec w src sel")
       (auto simp: make_out_path_def bind_fx_def pure_fx_def tbl split: sum.splits prod.splits option.splits)
  show ?thesis using tbl dflt absent by simp
qed

theorem pick_copy_extension_total_witness:
  "''wmav2'' \<notin> set [''aac'', ''mp3'', ''ac3'', ''eac3'', ''dts'', ''opus'', ''vorbis'', ''flac'',
                   ''pcm_s16le'', ''truehd''] \<and> pick_copy_extension ''wmav2'' = ''.m4a'' \<and>
   fst (detect_audio_codec world_fail (Path ''/in/a.mkv'') ''a:0'') = Inr None \<and>
   fst (make_out_path world_fail (Path ''/in/a.mkv'') (Path ''/in'') (Path ''/out'') True ''COPY'' ''a:0'')
     = Inr (Path ''/out/a.m4a'')"
proof -
  have a: "''wmav2'' \<notin> set [''aac'', ''mp3'', ''ac3'', ''eac3'', ''dts'', ''opus'', ''vorbis'', ''flac'',
                   ''pcm_s16le'', ''truehd'']" by simp
  have b: "fst (detect_audio_codec world_fail (Path ''/in/a.mkv'') ''a:0'') = Inr None"
    by (simp add: detect_audio_codec_def run_cmd_def world_fail_def)
  have c: "fst (make_out_path world_fail (Path ''/in/a.mkv'') (Path ''/in'') (Path ''/out'') True ''AAC'' ''a:0'')
     = Inr (Path ''/out/a.m4a'')"
    by code_simp
  show ?thesis
    using pick_copy_extension_total [of "''wmav2''" world_fail "Path ''/in/a.mkv''" "''a:0''"
        "Path ''/in''" "Path ''/out''" True] a b c by simp
qed

text \<open>
  C8. The claim: with \<open>preserve_tree\<close> the output path mirrors the source's path relative
  to the input root under the output root, and without it only the filename stem is used
  under the output root. The video file \<open>..mp4\<close> (suffix \<open>.mp4\<close>, stem \<open>.\<close>) breaks both
  halves: its stem is dropped when the path is joined, so the extension is put on the
  directory above. Flattened, the output \<open>/out.mp3\<close> lies outside the output root
  \<open>/out\<close>; with the tree preserved, the output \<open>/out/sub.mp3\<close> is not in the mirrored
  directory \<open>/out/sub\<close>.
\<close>

theorem make_out_path_dot_stem_leaves_output_root:
  "path_stem (Path ''/in/sub/..mp4'') = ''.'' \<and>
   path_suffix (Path ''/in/sub/..mp4'') = ''.mp4'' \<and>
   fst (make_out_path world_ok (Path ''/in/sub/..mp4'') (Path ''/in'') (Path ''/out'') False ''MP3'' ''a:0'')
     = Inr (Path ''/out.mp3'') \<and>
   fst (make_out_path world_ok (Path ''/in/sub/..mp4'') (Path ''/in'') (Path ''/out'') True ''MP3'' ''a:0'')
     = Inr (Path ''/out/sub.mp3'')"
  by code_simp

text \<open>
  C9, as stated: for every source file whose stem contains a dot, the output filename
  loses what follows the stem's last dot. It fails for a stem whose only dot is its first
  character: \<open>.b.mp4\<close> has the stem \<open>.b\<close>, which has no suffix for pathlib, and the output
  is \<open>.b.mp3\<close>, not \<open>.mp3\<close>.
\<close>

theorem stem_with_leading_dot_counterexample:
  "CHR ''.'' \<in> set (path_stem (Path ''/in/.b.mp4'')) \<and>
   fst (make_out_path world_ok (Path ''/in/.b.mp4'') (Path ''/in'') (Path ''/out'') False ''MP3'' ''a:0'')
     = Inr (Path ''/out/.b.mp3'') \<and>
   fst (make_out_path world_ok (Path ''/in/.b.mp4'') (Path ''/in'') (Path ''/out'') True ''MP3'' ''a:0'')
     = Inr (Path ''/out/.b.mp3'') \<and>
   Path ''/out/.b.mp3'' \<noteq> Path ''/out/.mp3''"
  by code_simp

text \<open>
  C9, amended. For every source file under the input root whose stem is not \<open>.\<close>, in both
  the preserve-tree and the flattening case, \<open>make_out_path\<close> puts the target extension in
  the place of the stem's own suffix (as pathlib sees it), in the directory that mirrors
  the source's or in the output root, unless probing the codec or creating the directory
  raises. When the stem's last dot is neither its first nor its last character (the name
  is \<open>a.b.e\<close>, the stem \<open>a.b\<close>), everything from that dot on is lost: the output filename
  is \<open>a\<close> followed by the extension. When the stem has no dot, or its last dot is its first
  or its last character (\<open>.b\<close>, \<open>a.\<close>), the stem is kept whole. (The stem \<open>.\<close> is the
  case of C8.)
\<close>

theorem make_out_path_stem_suffix:
  assumes "root src = root inp"
    and "names src = names inp @ dirs @ [nm]"
    and "\<forall>d\<in>set dirs. d \<noteq> [] \<and> d \<noteq> ''.''"
    and "nm \<noteq> []" "CHR ''/'' \<notin> set nm"
    and "stem_of nm \<noteq> ''.''"
  shows "path_stem src = stem_of nm \<and>
     fst (make_out_path w src inp outp pt md sel) =
     (case target_extension w src md sel of
        Inl ex \<Rightarrow> Inl ex
      | Inr ext \<Rightarrow>
          (case mkdir w \<lparr>root = root outp, names = names outp @ (if pt then dirs else [])\<rparr> of
             Some ex \<Rightarrow> Inl ex
           | None \<Rightarrow> Inr \<lparr>root = root outp,
                          names = names outp @ (if pt then dirs else []) @ [stem_of (path_stem src) @ ext]\<rparr>)) \<and>
     (\<forall>a b. path_stem src = a @ ''.'' @ b \<and> a \<noteq> [] \<and> b \<noteq> [] \<and> CHR ''.'' \<notin> set b \<longrightarrow>
        stem_of (path_stem src) = a) \<and>
     ((\<forall>i. rfind CHR ''.'' (path_stem src) = Some i \<longrightarrow> i = 0 \<or> Suc i = length (path_stem src)) \<longrightarrow>
        stem_of (path_stem src) = path_stem src) \<and>
     (\<forall>a b e. nm = a @ ''.'' @ b @ ''.'' @ e \<and> a \<noteq> [] \<and> b \<noteq> [] \<and> e \<noteq> [] \<and>
        CHR ''.'' \<notin> set b \<and> CHR ''.'' \<notin> set e \<longrightarrow>
        path_stem src = a @ ''.'' @ b \<and> stem_of (path_stem src) = a)"
proof -
  have ps: "path_stem src = stem_of nm"
    using assms(2) by (simp add: path_stem_def path_name_def)
  have lay: "fst (make_out_path w src inp outp pt md sel) =
     (case target_extension w src md sel of
        Inl ex \<Rightarrow> Inl ex
      | Inr ext \<Rightarrow>
          (case mkdir w \<lparr>root = root outp, names = names outp @ (if pt then dirs else [])\<rparr> of
             Some ex \<Rightarrow> Inl ex
           | None \<Rightarrow> Inr \<lparr>root = root outp,
                          names = names outp @ (if pt then dirs else []) @ [stem_of (path_stem src) @ ext]\<rparr>))"
    unfolding ps by (rule make_out_path_layout [OF assms])
  have dot: "stem_of st = a" if "st = a @ ''.'' @ b" "a \<noteq> []" "b \<noteq> []" "CHR ''.'' \<notin> set b" for st a b
  proof -
    have "stem_of (a @ CHR ''.'' # b) = a" using that by (intro stem_of_dotted) simp_all
    with that(1) show ?thesis by simp
  qed
  have whole: "(\<forall>i. rfind CHR ''.'' (path_stem src) = Some i \<longrightarrow> i = 0 \<or> Suc i = length (path_stem src)) \<longrightarrow>
        stem_of (path_stem src) = path_stem src"
    using stem_of_whole by blast
  have three: "path_stem src = a @ ''.'' @ b \<and> stem_of (path_stem src) = a"
    if "nm = a @ ''.'' @ b @ ''.'' @ e" "a \<noteq> []" "b \<noteq> []" "e \<noteq> []" "CHR ''.'' \<notin> set b" "CHR ''.'' \<notin> set e"
    for a b e
  proof -
    have "stem_of ((a @ ''.'' @ b) @ CHR ''.'' # e) = a @ ''.'' @ b"
      using that by (intro stem_of_dotted) simp_all
    with that(1) have 1: "path_stem src = a @ ''.'' @ b" by (simp add: ps)
    with dot [OF 1 that(2,3,5)] show ?thesis by simp
  qed
  show ?thesis
    using ps lay whole dot three by blast
qed

theorem make_out_path_stem_suffix_witness:
  "fst (make_out_path world_ok (Path ''/in/sub/a.b.mp4'') (Path ''/in'') (Path ''/out'') True ''MP3'' ''a:0'')
     = Inr (Path ''/out/sub/a.mp3'') \<and>
   fst (make_out_path world_ok (Path ''/in/sub/a.b.mp4'') (Path ''/in'') (Path ''/out'') False ''MP3'' ''a:0'')
     = Inr (Path ''/out/a.mp3'') \<and>
   path_stem (Path ''/in/sub/.b.mp4'') = ''.b'' \<and> rfind CHR ''.'' ''.b'' = Some 0 \<and>
   fst (make_out_path world_ok (Path ''/in/sub/.b.mp4'') (Path ''/in'') (Path ''/out'') True ''MP3'' ''a:0'')
     = Inr (Path ''/out/sub/.b.mp3'') \<and>
   fst (make_out_path world_ok (Path ''/in/sub/.b.mp4'') (Path ''/in'') (Path ''/out'') False ''MP3'' ''a:0'')
     = Inr (Path ''/out/.b.mp3'')"
proof -
  have p: "Path ''/in/sub/a.b.mp4'' = \<lparr>root = ''/'', names = [''in'', ''sub'', ''a.b.mp4'']\<rparr>"
      "Path ''/in/sub/.b.mp4'' = \<lparr>root = ''/'', names = [''in'', ''sub'', ''.b.mp4'']\<rparr>"
      "Path ''/in'' = \<lparr>root = ''/'', names = [''in'']\<rparr>"
      "Path ''/out'' = \<lparr>root = ''/'', names = [''out'']\<rparr>"
      "Path ''/out/sub/a.mp3'' = \<lparr>root = ''/'', names = [''out'', ''sub'', ''a.mp3'']\<rparr>"
      "Path ''/out/a.mp3'' = \<lparr>root = ''/'', names = [''out'', ''a.mp3'']\<rparr>"
      "Path ''/out/sub/.b.mp3'' = \<lparr>root = ''/'', names = [''out'', ''sub'', ''.b.mp3'']\<rparr>"
      "Path ''/out/.b.mp3'' = \<lparr>root = ''/'', names = [''out'', ''.b.mp3'']\<rparr>"
    by (simp_all add: Path_def splitroot_def)
  have te: "target_extension world_ok x ''MP3'' ''a:0'' = Inr ''.mp3''" for x
    by (simp add: target_extension_def)
  have mk: "mkdir world_ok d = None" for d by (simp add: world_ok_def)
  have st: "stem_of ''a.b.mp4'' = ''a.b''" "stem_of ''.b.mp4'' = ''.b''" "stem_of ''.b'' = ''.b''"
    "rfind CHR ''.'' ''.b'' = Some 0"
    by code_simp+
  have h1: "root (Path ''/in/sub/a.b.mp4'') = root (Path ''/in'')"
      "names (Path ''/in/sub/a.b.mp4'') = names (Path ''/in'') @ [''sub''] @ [''a.b.mp4'']"
      "\<forall>d\<in>set [''sub'']. d \<noteq> [] \<and> d \<noteq> ''.''"
      "''a.b.mp4'' \<noteq> []" "CHR ''/'' \<notin> set ''a.b.mp4''" "stem_of ''a.b.mp4'' \<noteq> ''.''"
    by (simp_all add: p st)
  have h2: "root (Path ''/in/sub/.b.mp4'') = root (Path ''/in'')"
      "names (Path ''/in/sub/.b.mp4'') = names (Path ''/in'') @ [''sub''] @ [''.b.mp4'']"
      "\<forall>d\<in>set [''sub'']. d \<noteq> [] \<and> d \<noteq> ''.''"
      "''.b.mp4'' \<noteq> []" "CHR ''/'' \<notin> set ''.b.mp4''" "stem_of ''.b.mp4'' \<noteq> ''.''"
    by (simp_all add: p st)
  note a1 = make_out_path_stem_suffix [OF h1, of world_ok "Path ''/out''" True "''MP3''" "''a:0''"]
  note a2 = make_out_path_stem_suffix [OF h1, of world_ok "Path ''/out''" False "''MP3''" "''a:0''"]
  note b1 = make_out_path_stem_suffix [OF h2, of world_ok "Path ''/out''" True "''MP3''" "''a:0''"]
  note b2 = make_out_path_stem_suffix [OF h2, of world_ok "Path ''/out''" False "''MP3''" "''a:0''"]
  have sa: "path_stem (Path ''/in/sub/a.b.mp4'') = ''a.b''" using a1 by (simp add: st)
  have sb: "path_stem (Path ''/in/sub/.b.mp4'') = ''.b''" using b1 by (simp add: st)
  have ka: "stem_of (path_stem (Path ''/in/sub/a.b.mp4'')) = ''a''"
  proof -
    from a1 have "\<forall>a b. path_stem (Path ''/in/sub/a.b.mp4'') = a @ ''.'' @ b \<and> a \<noteq> [] \<and> b \<noteq> [] \<and> CHR ''.'' \<notin> set b \<longrightarrow>
        stem_of (path_stem (Path ''/in/sub/a.b.mp4'')) = a" by blast
    then have "path_stem (Path ''/in/sub/a.b.mp4'') = ''a'' @ ''.'' @ ''b'' \<and> ''a'' \<noteq> [] \<and> ''b'' \<noteq> [] \<and> CHR ''.'' \<notin> set ''b'' \<longrightarrow>
        stem_of (path_stem (Path ''/in/sub/a.b.mp4'')) = ''a''" by blast
    then show ?thesis by (simp add: sa)
  qed
  have kb: "stem_of (path_stem (Path ''/in/sub/.b.mp4'')) = ''.b''"
  proof -
    from b1 have "(\<forall>i. rfind CHR ''.'' (path_stem (Path ''/in/sub/.b.mp4'')) = Some i \<longrightarrow>
          i = 0 \<or> Suc i = length (path_stem (Path ''/in/sub/.b.mp4''))) \<longrightarrow>
        stem_of (path_stem (Path ''/in/sub/.b.mp4'')) = path_stem (Path ''/in/sub/.b.mp4'')" by blast
    then show ?thesis by (simp add: sb st)
  qed
  from a1 [THEN conjunct2, THEN conjunct1, unfolded ka te] have r1: "fst (make_out_path world_ok (Path ''/in/sub/a.b.mp4'') (Path ''/in'') (Path ''/out'') True ''MP3'' ''a:0'')
     = Inr (Path ''/out/sub/a.mp3'')"
    by (simp add: mk p)
  from a2 [THEN conjunct2, THEN conjunct1, unfolded ka te] have r2: "fst (make_out_path world_ok (Path ''/in/sub/a.b.mp4'') (Path ''/in'') (Path ''/out'') False ''MP3'' ''a:0'')
     = Inr (Path ''/out/a.mp3'')"
    by (simp add: mk p)
  from b1 [THEN conjunct2, THEN conjunct1, unfolded kb te] have r3: "fst (make_out_path world_ok (Path ''/in/sub/.b.mp4'') (Path ''/in'') (Path ''/out'') True ''MP3'' ''a:0'')
     = Inr (Path ''/out/sub/.b.mp3'')"
    by (simp add: mk p)
  from b2 [THEN conjunct2, THEN conjunct1, unfolded kb te] have r4: "fst (make_out_path world_ok (Path ''/in/sub/.b.mp4'') (Path ''/in'') (Path ''/out'') False ''MP3'' ''a:0'')
     = Inr (Path ''/out/.b.mp3'')"
    by (simp add: mk p)
  from r1 r2 r3 r4 sb st show ?thesis by simp
qed

section \<open>The per-file worker\<close>

lemma fst_process_one:
  "fst (process_one w src inp outp pt md sel ln sr br gpu) =
     (case fst (process_one_try w src inp outp pt md sel ln sr br gpu) of
        Inl e \<Rightarrow> Inr (src, False, str_exn e)
      | Inr r \<Rightarrow> Inr r)"
  by (cases "process_one_try w src inp outp pt md sel ln sr br gpu")
     (auto simp: process_one_def split: sum.splits)

lemma fst_run_cmd [simp]: "fst (run_cmd w cmd) = popen w cmd"
  by (simp add: run_cmd_def)

lemma fst_process_one_try:
  "fst (process_one_try w src inp outp pt md sel ln sr br gpu) =
     (case fst (make_out_path w src inp outp pt md sel) of
        Inl e \<Rightarrow> Inl e
      | Inr dst \<Rightarrow>
          (case popen w (build_ffmpeg_cmd src dst md sel ln sr br gpu) of
             Inl e \<Rightarrow> Inl e
           | Inr (code, out, err) \<Rightarrow>
               if code \<noteq> 0 then Inr (src, False, strip err) else Inr (src, True, str_path dst)))"
  by (simp add: process_one_try_def fst_bind_fx Let_def split: sum.splits prod.splits)

lemma process_one_returns:
  "\<exists>ok msg. fst (process_one w src inp outp pt md sel ln sr br gpu) = Inr (src, ok, msg)"
  by (auto simp: fst_process_one fst_process_one_try split: sum.splits prod.splits)

text \<open>
  C3. For every input file and every world, \<open>process_one\<close> returns a Task Result for its
  source and never an exception. When its \<open>try\<close> body raises \<open>e\<close>, in particular when
  resolving the output path raises \<open>e\<close> or when starting the external tool on the built
  command raises \<open>e\<close>, the result is \<open>(src, False, str(e))\<close>.
\<close>

theorem process_one_never_propagates:
  "(\<exists>ok msg. fst (process_one w src inp outp pt md sel ln sr br gpu) = Inr (src, ok, msg)) \<and>
   (fst (process_one_try w src inp outp pt md sel ln sr br gpu) = Inl e \<longrightarrow>
      fst (process_one w src inp outp pt md sel ln sr br gpu) = Inr (src, False, str_exn e)) \<and>
   (fst (make_out_path w src inp outp pt md sel) = Inl e \<longrightarrow>
      fst (process_one w src inp outp pt md sel ln sr br gpu) = Inr (src, False, str_exn e)) \<and>
   (fst (make_out_path w src inp outp pt md sel) = Inr dst \<and>
    popen w (build_ffmpeg_cmd src dst md sel ln sr br gpu) = Inl e \<longrightarrow>
      fst (process_one w src inp outp pt md sel ln sr br gpu) = Inr (src, False, str_exn e))"
  using process_one_returns [of w src inp outp pt md sel ln sr br gpu]
  by (simp add: fst_process_one fst_process_one_try)

theorem process_one_never_propagates_witness:
  "fst (make_out_path world_ok (Path ''/elsewhere/a.mp4'') (Path ''/in'') (Path ''/out'') True ''MP3'' ''a:0'')
     = Inl (ValueError ([CHR 0x27] @ ''/elsewhere/a.mp4'' @ [CHR 0x27] @ '' is not in the subpath of ''
                     @ [CHR 0x27] @ ''/in'' @ [CHR 0x27]
                     @ '' OR one path is relative and the other is absolute.'')) \<and>
   fst (process_one world_ok (Path ''/elsewhere/a.mp4'') (Path ''/in'') (Path ''/out'') True ''MP3'' ''a:0''
          False None None False)
     = Inr (Path ''/elsewhere/a.mp4'', False,
            [CHR 0x27] @ ''/elsewhere/a.mp4'' @ [CHR 0x27] @ '' is not in the subpath of ''
                     @ [CHR 0x27] @ ''/in'' @ [CHR 0x27]
                     @ '' OR one path is relative and the other is absolute.'') \<and>
   fst (make_out_path world_missing (Path ''/in/a.mp4'') (Path ''/in'') (Path ''/out'') True ''MP3'' ''a:0'')
     = Inr (Path ''/out/a.mp3'') \<and>
   popen world_missing (build_ffmpeg_cmd (Path ''/in/a.mp4'') (Path ''/out/a.mp3'') ''MP3'' ''a:0''
          False None None False)
     = Inl (OSError ''[Errno 2] No such file or directory'') \<and>
   fst (process_one world_missing (Path ''/in/a.mp4'') (Path ''/in'') (Path ''/out'') True ''MP3'' ''a:0''
          False None None False)
     = Inr (Path ''/in/a.mp4'', False, ''[Errno 2] No such file or directory'')"
proof -
  let ?e1 = "ValueError ([CHR 0x27] @ ''/elsewhere/a.mp4'' @ [CHR 0x27] @ '' is not in the subpath of ''
                     @ [CHR 0x27] @ ''/in'' @ [CHR 0x27]
                     @ '' OR one path is relative and the other is absolute.'')"
  have a: "fst (make_out_path world_ok (Path ''/elsewhere/a.mp4'') (Path ''/in'') (Path ''/out'') True ''MP3'' ''a:0'')
     = Inl ?e1"
    by code_simp
  have b: "fst (make_out_path world_missing (Path ''/in/a.mp4'') (Path ''/in'') (Path ''/out'') True ''MP3'' ''a:0'')
     = Inr (Path ''/out/a.mp3'')"
    by code_simp
  have c: "popen world_missing cmd = Inl (OSError ''[Errno 2] No such file or directory'')" for cmd
    by (simp add: world_missing_def)
  show ?thesis
    using process_one_never_propagates [of world_ok "Path ''/elsewhere/a.mp4''" "Path ''/in''" "Path ''/out''"
        True "''MP3''" "''a:0''" False None None False ?e1]
      process_one_never_propagates [of world_missing "Path ''/in/a.mp4''" "Path ''/in''" "Path ''/out''"
        True "''MP3''" "''a:0''" False None None False "OSError ''[Errno 2] No such file or directory''"
        "Path ''/out/a.mp3''"]
      a b c by simp
qed

section \<open>Job Dispatcher\<close>

lemma is_result_line_result_line [simp]: "is_result_line (result_line r)"
  by (cases r) (simp add: is_result_line_def result_line_def)

lemma is_result_line_simps [simp]:
  "\<not> is_result_line (Progress a b)" "\<not> is_result_line (Status t)"
  "\<not> is_result_line (Log ''== Selesai =='')" "\<not> is_result_line (Log ''== Dibatalkan =='')"
  "\<not> is_result_line (Log (''[ERROR] '' @ m))"
  by (simp_all add: is_result_line_def)

lemma loop_body_frame [simp]:
  "stop_event (loop_body s fut) = stop_event s"
  "work_queue (loop_body s fut) = work_queue s"
  "running (loop_body s fut) = running s"
  "completed (loop_body s fut) = completed s"
  "total_files (loop_body s fut) = total_files s"
  "effects (loop_body s fut) = effects s"
  by (auto simp: loop_body_def Let_def split: sum.splits prod.splits)

lemma loop_body_stopped [simp]: "stop_event s \<Longrightarrow> loop_body s fut = s\<lparr>pc := Exiting None\<rparr>"
  by (simp add: loop_body_def)

lemma loop_body_raised [simp]: "\<not> stop_event s \<Longrightarrow> loop_body s (Inl e) = s\<lparr>pc := Exiting (Some e)\<rparr>"
  by (simp add: loop_body_def)

lemma loop_body_processed:
  assumes "\<not> stop_event s"
  shows "done_count (loop_body s (Inr (src, ok, msg))) = done_count s + 1"
    and "ok_count (loop_body s (Inr (src, ok, msg))) = (if ok then ok_count s + 1 else ok_count s)"
    and "fail_count (loop_body s (Inr (src, ok, msg))) = (if ok then fail_count s else fail_count s + 1)"
    and "pc (loop_body s (Inr (src, ok, msg))) = pc s"
    and "filter is_result_line (ui_queue (loop_body s (Inr (src, ok, msg)))) =
           filter is_result_line (ui_queue s) @ [result_line (src, ok, msg)]"
  using assms by (simp_all add: loop_body_def Let_def result_line_def is_result_line_def)

lemma finally_block_frame [simp]:
  "stop_event (finally_block s) = stop_event s"
  "work_queue (finally_block s) = work_queue s"
  "running (finally_block s) = running s"
  "completed (finally_block s) = completed s"
  "total_files (finally_block s) = total_files s"
  "effects (finally_block s) = effects s"
  "done_count (finally_block s) = done_count s"
  "ok_count (finally_block s) = ok_count s"
  "fail_count (finally_block s) = fail_count s"
  "pc (finally_block s) = Finished"
  by (auto simp: finally_block_def Let_def split: pc.splits option.splits)


lemma finally_block_lines:
  "filter is_result_line (ui_queue (finally_block s)) = filter is_result_line (ui_queue s)"
  by (auto simp: finally_block_def Let_def is_result_line_def split: pc.splits option.splits)

lemma length_remove_nth [simp]: "k < length xs \<Longrightarrow> length (remove_nth k xs) = length xs - 1"
  by (simp add: remove_nth_def)

lemma mset_remove_nth: "k < length xs \<Longrightarrow> add_mset (xs ! k) (mset (remove_nth k xs)) = mset xs"
  unfolding remove_nth_def
  by (metis add_mset_add_single id_take_nth_drop mset.simps(2) mset_append union_mset_add_mset_right)

lemma set_remove_nth: "set (remove_nth k xs) \<subseteq> set xs"
  by (auto simp: remove_nth_def dest: in_set_takeD in_set_dropD)

lemma step_total [simp]: "step w args workers s ev = Some s' \<Longrightarrow> total_files s' = total_files s"
  by (cases ev) (auto split: if_splits list.splits prod.splits pc.splits)

lemma step_counters_inv:
  assumes "counters_inv s" and "step w args workers s ev = Some s'"
  shows "counters_inv s'"
proof (cases ev)
  case (Yield k)
  with assms(2) have k: "k < length (completed s)" "pc s = Looping"
    and s': "s' = loop_body (s\<lparr>completed := remove_nth k (completed s)\<rparr>) (completed s ! k)"
    by (auto split: if_splits)
  show ?thesis
  proof (cases "stop_event s")
    case True
    with assms(1) k show ?thesis by (simp add: s' counters_inv_def; arith)
  next
    case False
    show ?thesis
    proof (cases "completed s ! k")
      case (Inl e)
      with False assms(1) k show ?thesis by (simp add: s' counters_inv_def; arith)
    next
      case (Inr r)
      obtain src ok msg where r: "r = (src, ok, msg)" by (cases r)
      from False assms(1) k show ?thesis
        by (simp add: s' Inr r counters_inv_def loop_body_processed; arith)
    qed
  qed
qed (use assms in \<open>auto simp: counters_inv_def split: if_splits list.splits prod.splits pc.splits\<close>)

lemma run_counters_inv:
  "counters_inv s \<Longrightarrow> run w args workers s sched = Some s' \<Longrightarrow>
   counters_inv s' \<and> total_files s' = total_files s"
proof (induction sched arbitrary: s)
  case Nil
  then show ?case by simp
next
  case (Cons ev sched)
  then obtain s1 where s1: "step w args workers s ev = Some s1" "run w args workers s1 sched = Some s'"
    by (auto split: option.splits)
  from Cons.prems(1) s1(1) have "counters_inv s1" by (rule step_counters_inv)
  with Cons.IH s1 show ?case by (metis step_total)
qed

lemma counters_inv_init: "counters_inv (run_batch_init files workers)"
  by (simp add: counters_inv_def run_batch_init_def)







lemma uncancelled_Inr: "\<exists>ok msg. uncancelled w args f = Inr (f, ok, msg)"
  unfolding uncancelled_def task_def using process_one_returns by simp

lemma mset_map_remove_nth:
  "k < length xs \<Longrightarrow> add_mset (f (xs ! k)) (mset (map f (remove_nth k xs))) = mset (map f xs)"
  using mset_remove_nth [of k xs] by (metis image_mset_add_mset mset_map)

lemma step_all_accounted:
  assumes inv: "all_accounted w args files s" and st: "step w args workers s ev = Some s'"
    and nc: "ev \<noteq> Cancel"
  shows "all_accounted w args files s'"
proof (cases ev)
  case Cancel
  with nc show ?thesis by simp
next
  case Start
  with st obtain f fs where wq: "work_queue s = f # fs"
    by (auto split: list.splits)
  from inv have ns: "\<not> stop_event s" by (simp add: all_accounted_def)
  obtain r fx where t: "task w args False f = (r, fx)" by (cases "task w args False f")
  then have r: "r = uncancelled w args f" by (simp add: uncancelled_def)
  from st Start wq ns t have s': "s' = s\<lparr>work_queue := fs, running := running s @ [r], effects := effects s @ fx\<rparr>"
    by (auto split: if_splits)
  from inv wq have lp: "pc s = Looping" by (auto simp: all_accounted_def)
  from inv wq lp show ?thesis
    using uncancelled_Inr [of w args f]
    by (auto simp: all_accounted_def s' r)
next
  case (Complete k)
  with st have k: "k < length (running s)"
    and s': "s' = s\<lparr>running := remove_nth k (running s), completed := completed s @ [running s ! k]\<rparr>"
    by (auto split: if_splits)
  from inv k have lp: "pc s = Looping" by (auto simp: all_accounted_def)
  have sub: "set (remove_nth k (running s)) \<subseteq> set (running s)" by (rule set_remove_nth)
  have m: "image_mset fut_line (mset (running s)) =
      add_mset (fut_line (running s ! k)) (image_mset fut_line (mset (remove_nth k (running s))))"
    using mset_map_remove_nth [OF k, of fut_line] by simp
  from inv lp k sub show ?thesis
    unfolding all_accounted_def s'
    by (auto simp: m nth_mem)
next
  case (Yield k)
  with st have k: "k < length (completed s)" and lp: "pc s = Looping"
    and s': "s' = loop_body (s\<lparr>completed := remove_nth k (completed s)\<rparr>) (completed s ! k)"
    by (auto split: if_splits)
  from inv have ns: "\<not> stop_event s" by (simp add: all_accounted_def)
  from inv k obtain src ok msg where fut: "completed s ! k = Inr (src, ok, msg)"
    unfolding all_accounted_def by (metis nth_mem prod_cases3 UnCI set_append)
  have sub: "set (remove_nth k (completed s)) \<subseteq> set (completed s)" by (rule set_remove_nth)
  have m: "image_mset fut_line (mset (completed s)) =
      add_mset (result_line (src, ok, msg)) (image_mset fut_line (mset (remove_nth k (completed s))))"
    using mset_map_remove_nth [OF k, of fut_line] by (simp add: fut fut_line_def)
  from inv lp k sub ns show ?thesis
    unfolding all_accounted_def s' fut
    by (auto simp: loop_body_processed m)
next
  case LoopEnd
  with st inv show ?thesis by (auto simp: all_accounted_def split: if_splits)
next
  case Finalize
  with st have s': "s' = finally_block s" and e: "work_queue s = []" "running s = []"
    by (auto split: pc.splits if_splits)
  from st Finalize have "pc s \<noteq> Looping" by (auto split: pc.splits)
  with inv show ?thesis
    by (auto simp: all_accounted_def s' finally_block_lines)
qed

lemma run_all_accounted:
  "all_accounted w args files s \<Longrightarrow> run w args workers s sched = Some s' \<Longrightarrow> Cancel \<notin> set sched \<Longrightarrow>
   all_accounted w args files s'"
proof (induction sched arbitrary: s)
  case Nil
  then show ?case by simp
next
  case (Cons ev sched)
  then obtain s1 where s1: "step w args workers s ev = Some s1" "run w args workers s1 sched = Some s'"
    by (auto split: option.splits)
  from Cons.prems have "ev \<noteq> Cancel" by auto
  with Cons.prems(1) s1(1) have "all_accounted w args files s1" by (rule step_all_accounted)
  with Cons.IH s1(2) Cons.prems(3) show ?case by simp
qed

lemma all_accounted_init: "0 < workers \<Longrightarrow> all_accounted w args files (run_batch_init files workers)"
  by (simp add: all_accounted_def run_batch_init_def)

lemma run_append:
  "run w args workers s (xs @ ys) =
     (case run w args workers s xs of None \<Rightarrow> None | Some s' \<Rightarrow> run w args workers s' ys)"
  by (induction xs arbitrary: s) (auto split: option.splits)

lemma run_one_file:
  assumes "idle s" "work_queue s = f # fs" "0 < workers"
  shows "\<exists>s'. run w args workers s [Start, Complete 0, Yield 0] = Some s' \<and> idle s' \<and> work_queue s' = fs"
proof -
  obtain ok msg where u: "uncancelled w args f = Inr (f, ok, msg)"
    using uncancelled_Inr by blast
  obtain r fx where t: "task w args False f = (r, fx)" by (cases "task w args False f")
  with u have r: "r = Inr (f, ok, msg)" by (simp add: uncancelled_def)
  show ?thesis
    using assms by (simp add: idle_def t r remove_nth_def loop_body_processed)
qed

lemma run_sequential:
  assumes "0 < workers"
  shows "idle s \<Longrightarrow> work_queue s = fs \<Longrightarrow>
     \<exists>s'. run w args workers s (sequential fs) = Some s' \<and> pc s' = Finished"
proof (induction fs arbitrary: s)
  case Nil
  then show ?case by (simp add: sequential_def idle_def)
next
  case (Cons f fs)
  from run_one_file [OF Cons.prems(1) Cons.prems(2) assms]
  obtain s1 where s1: "run w args workers s [Start, Complete 0, Yield 0] = Some s1" "idle s1" "work_queue s1 = fs"
    by blast
  from Cons.IH [OF s1(2) s1(3)] obtain s' where
    "run w args workers s1 (sequential fs) = Some s'" "pc s' = Finished" by blast
  moreover have "sequential (f # fs) = [Start, Complete 0, Yield 0] @ sequential fs"
    by (simp add: sequential_def)
  ultimately show ?case
    using s1(1) by (simp only: run_append option.case) blast
qed

lemma sequential_no_cancel: "Cancel \<notin> set (sequential fs)"
  by (auto simp: sequential_def)

lemma run_progress:
  assumes w: "0 < workers"
  shows "all_accounted w args files s \<Longrightarrow>
     \<exists>sched' s'. Cancel \<notin> set sched' \<and> run w args workers s sched' = Some s' \<and> pc s' = Finished"
proof (induction "pending_work s" arbitrary: s rule: less_induct)
  case less
  note acc = less.prems
  have ext: "\<exists>sched' s'. Cancel \<notin> set sched' \<and> run w args workers s sched' = Some s' \<and> pc s' = Finished"
    if "ev \<noteq> Cancel" "step w args workers s ev = Some s1" "pending_work s1 < pending_work s" for ev s1
  proof -
    from acc that(2) that(1) have "all_accounted w args files s1" by (rule step_all_accounted)
    with less.hyps [OF that(3)] obtain sched' s' where
      "Cancel \<notin> set sched'" "run w args workers s1 sched' = Some s'" "pc s' = Finished" by blast
    with that(1,2) have "Cancel \<notin> set (ev # sched') \<and> run w args workers s (ev # sched') = Some s' \<and> pc s' = Finished"
      by simp
    then show ?thesis by blast
  qed
  from acc have ns: "\<not> stop_event s" by (simp add: all_accounted_def)
  consider (fin) "pc s = Finished"
    | (exi) "pc s = Exiting None" "work_queue s = []" "running s = []"
    | (loop) "pc s = Looping"
    using acc by (auto simp: all_accounted_def)
  then show ?case
  proof cases
    case fin
    then have "Cancel \<notin> set [] \<and> run w args workers s [] = Some s \<and> pc s = Finished" by simp
    then show ?thesis by blast
  next
    case exi
    then have "Cancel \<notin> set [Finalize] \<and> run w args workers s [Finalize] = Some (finally_block s)
        \<and> pc (finally_block s) = Finished" by simp
    then show ?thesis by blast
  next
    case loop
    show ?thesis
    proof (cases "completed s")
      case (Cons c cs)
      from acc Cons obtain src ok msg where c: "c = Inr (src, ok, msg)"
        unfolding all_accounted_def by (metis list.set_intros(1) prod_cases3 UnCI set_append)
      let ?s1 = "loop_body (s\<lparr>completed := remove_nth 0 (completed s)\<rparr>) (completed s ! 0)"
      have "step w args workers s (Yield 0) = Some ?s1" using loop Cons by simp
      moreover have "pending_work ?s1 < pending_work s"
        using Cons by (simp add: pending_work_def remove_nth_def)
      ultimately show ?thesis using ext [of "Yield 0" ?s1] by simp
    next
      case Nil
      note cnil = Nil
      show ?thesis
      proof (cases "running s")
        case (Cons r rs)
        let ?s1 = "s\<lparr>running := remove_nth 0 (running s), completed := completed s @ [running s ! 0]\<rparr>"
        have "step w args workers s (Complete 0) = Some ?s1" using Cons by simp
        moreover have "pending_work ?s1 < pending_work s"
          using Cons by (simp add: pending_work_def remove_nth_def)
        ultimately show ?thesis using ext [of "Complete 0" ?s1] by simp
      next
        case Nil
        note rnil = Nil
        show ?thesis
        proof (cases "work_queue s")
          case (Cons f fs)
          obtain r fx where t: "task w args (stop_event s) f = (r, fx)"
            by (cases "task w args (stop_event s) f")
          let ?s1 = "s\<lparr>work_queue := fs, running := running s @ [r], effects := effects s @ fx\<rparr>"
          have "step w args workers s Start = Some ?s1" using Cons rnil w t by simp
          moreover have "pending_work ?s1 < pending_work s"
            using Cons rnil by (simp add: pending_work_def)
          ultimately show ?thesis using ext [of Start ?s1] by simp
        next
          case Nil
          with cnil rnil loop have "Cancel \<notin> set [LoopEnd, Finalize] \<and>
              run w args workers s [LoopEnd, Finalize] = Some (finally_block (s\<lparr>pc := Exiting None\<rparr>)) \<and>
              pc (finally_block (s\<lparr>pc := Exiting None\<rparr>)) = Finished"
            by simp
          then show ?thesis by blast
        qed
      qed
    qed
  qed
qed



lemma loop_body_rank:
  "pc s = Looping \<Longrightarrow> (case pc (loop_body s fut) of Looping \<Rightarrow> 2 | Exiting eo \<Rightarrow> 1 | Finished \<Rightarrow> 0) \<le> (2::nat)"
  by (auto simp: loop_body_def Let_def split: sum.splits prod.splits)

lemma step_rank:
  assumes "step w args workers s ev = Some s'" "ev \<noteq> Cancel"
  shows "batch_rank s' < batch_rank s"
proof (cases ev)
  case (Yield k)
  with assms(1) have k: "k < length (completed s)" "pc s = Looping"
    and s': "s' = loop_body (s\<lparr>completed := remove_nth k (completed s)\<rparr>) (completed s ! k)"
    by (auto split: if_splits)
  have "pc (s\<lparr>completed := remove_nth k (completed s)\<rparr>) = Looping" using k by simp
  from loop_body_rank [OF this, of "completed s ! k"] k show ?thesis
    by (simp add: batch_rank_def pending_work_def s')
next
  case Finalize
  with assms(1) have "s' = finally_block s" "\<exists>eo. pc s = Exiting eo"
    by (auto split: pc.splits if_splits)
  then show ?thesis by (auto simp: batch_rank_def pending_work_def)
qed (use assms in \<open>auto simp: batch_rank_def pending_work_def remove_nth_def
       split: if_splits list.splits prod.splits pc.splits\<close>)

lemma run_rank:
  "run w args workers s sched = Some s' \<Longrightarrow> Cancel \<notin> set sched \<Longrightarrow>
   length sched + batch_rank s' \<le> batch_rank s"
proof (induction sched arbitrary: s)
  case Nil
  then show ?case by simp
next
  case (Cons ev sched)
  then obtain s1 where s1: "step w args workers s ev = Some s1" "run w args workers s1 sched = Some s'"
    by (auto split: option.splits)
  from Cons.prems(2) have "ev \<noteq> Cancel" "Cancel \<notin> set sched" by auto
  with step_rank [OF s1(1)] Cons.IH [OF s1(2)] show ?case by simp
qed

lemma batch_rank_init: "batch_rank (run_batch_init files workers) \<le> 3 * length files + 2"
  by (simp add: batch_rank_def pending_work_def run_batch_init_def)


text \<open>
  C10. In every state that a batch reaches, \<open>done = succeeded + failed\<close> and \<open>done\<close> is at
  most the number of submitted files. The step that processes a result (the loop body, the
  flag not set, the future holding a result) adds 1 to \<open>done\<close> and 1 to \<open>succeeded\<close> when
  the result is a success, to \<open>failed\<close> otherwise; every other step leaves the three
  counters as they are.
\<close>

theorem run_batch_counters:
  "(run_batch w args files workers sched = Some s \<longrightarrow>
      done_count s = ok_count s + fail_count s \<and> done_count s \<le> total_files s \<and>
      total_files s = length files) \<and>
   (step w args workers s (Yield k) = Some s' \<and> \<not> stop_event s \<and> completed s ! k = Inr (src, ok, msg) \<longrightarrow>
      done_count s' = done_count s + 1 \<and>
      (if ok then ok_count s' = ok_count s + 1 \<and> fail_count s' = fail_count s
       else ok_count s' = ok_count s \<and> fail_count s' = fail_count s + 1)) \<and>
   (step w args workers s ev = Some s' \<longrightarrow>
      (done_count s' = done_count s \<and> ok_count s' = ok_count s \<and> fail_count s' = fail_count s) \<or>
      (done_count s' = done_count s + 1 \<and> ok_count s' + fail_count s' = ok_count s + fail_count s + 1
        \<and> ok_count s \<le> ok_count s' \<and> fail_count s \<le> fail_count s'))"
proof (intro conjI impI)
  assume r: "run_batch w args files workers sched = Some s"
  then have "counters_inv s \<and> total_files s = total_files (run_batch_init files workers)"
    unfolding run_batch_def using counters_inv_init run_counters_inv by blast
  then show "done_count s = ok_count s + fail_count s" "done_count s \<le> total_files s"
    "total_files s = length files"
    by (simp_all add: counters_inv_def run_batch_init_def)
next
  assume a: "step w args workers s (Yield k) = Some s' \<and> \<not> stop_event s \<and> completed s ! k = Inr (src, ok, msg)"
  then have s': "s' = loop_body (s\<lparr>completed := remove_nth k (completed s)\<rparr>) (Inr (src, ok, msg))"
    by (auto split: if_splits)
  from a show "done_count s' = done_count s + 1"
    by (simp add: s' loop_body_processed)
  from a show "if ok then ok_count s' = ok_count s + 1 \<and> fail_count s' = fail_count s
       else ok_count s' = ok_count s \<and> fail_count s' = fail_count s + 1"
    by (simp add: s' loop_body_processed)
next
  assume a: "step w args workers s ev = Some s'"
  show "(done_count s' = done_count s \<and> ok_count s' = ok_count s \<and> fail_count s' = fail_count s) \<or>
      (done_count s' = done_count s + 1 \<and> ok_count s' + fail_count s' = ok_count s + fail_count s + 1
        \<and> ok_count s \<le> ok_count s' \<and> fail_count s \<le> fail_count s')"
  proof (cases ev)
    case (Yield k)
    with a have s': "s' = loop_body (s\<lparr>completed := remove_nth k (completed s)\<rparr>) (completed s ! k)"
      by (auto split: if_splits)
    show ?thesis
    proof (cases "stop_event s")
      case True
      then show ?thesis by (simp add: s')
    next
      case False
      show ?thesis
      proof (cases "completed s ! k")
        case (Inl e)
        with False show ?thesis by (simp add: s')
      next
        case (Inr r)
        obtain src ok msg where r: "r = (src, ok, msg)" by (cases r)
        from False show ?thesis by (simp add: s' Inr r loop_body_processed)
      qed
    qed
  qed (use a in \<open>auto split: if_splits list.splits prod.splits pc.splits\<close>)
qed

theorem run_batch_counters_witness:
  "run_batch world_ok sample_args sample_files 1 [Start, Complete 0] = Some state_one_completed \<and>
   step world_ok sample_args 1 state_one_completed (Yield 0) = Some state_one_yielded \<and>
   \<not> stop_event state_one_completed \<and>
   completed state_one_completed ! 0 = Inr (Path ''/in/a.mp4'', True, ''/out/a.mp3'') \<and>
   done_count state_one_completed = 0 \<and> total_files state_one_completed = 2 \<and>
   done_count state_one_yielded = 1 \<and> ok_count state_one_yielded = 1 \<and> fail_count state_one_yielded = 0"
proof -
  have a: "run_batch world_ok sample_args sample_files 1 [Start, Complete 0] = Some state_one_completed"
    unfolding state_one_completed_def by code_simp
  have b: "step world_ok sample_args 1 state_one_completed (Yield 0) = Some state_one_yielded"
    unfolding state_one_yielded_def state_one_completed_def by code_simp
  have c: "\<not> stop_event state_one_completed"
    "completed state_one_completed ! 0 = Inr (Path ''/in/a.mp4'', True, ''/out/a.mp3'')"
    "done_count state_one_completed = 0" "ok_count state_one_completed = 0"
    "fail_count state_one_completed = 0"
    unfolding state_one_completed_def by code_simp+
  show ?thesis
    using run_batch_counters [of world_ok sample_args sample_files 1 "[Start, Complete 0]"
        state_one_completed 0 state_one_yielded "Path ''/in/a.mp4''" True "''/out/a.mp3''" "Yield 0"]
      a b c by (simp add: sample_files_def)
qed




text \<open>
  C1. For a batch of N files and W workers (W at least 1, as \<open>App.start\<close> passes it) and
  no cancellation:
  \<^item> the schedule that runs the files one after the other reaches the end of the batch;
  \<^item> every run, whatever the interleaving of the workers, has at most \<open>3 N + 2\<close> steps and
    can be continued to the end of the batch from the state it has reached, so the
    dispatcher neither blocks nor runs forever;
  \<^item> every run that has reached the end has written exactly N result lines, one per file
    (the lines are, up to order, the lines of the files' results), and ends with
    \<open>done = N\<close> and \<open>succeeded + failed = N\<close>.
\<close>

theorem run_batch_reports_every_file:
  assumes "0 < workers"
  shows "(\<exists>s. run_batch w args files workers (sequential files) = Some s \<and> pc s = Finished) \<and>
     Cancel \<notin> set (sequential files) \<and>
     (\<forall>sched s. Cancel \<notin> set sched \<and> run_batch w args files workers sched = Some s \<longrightarrow>
        length sched \<le> 3 * length files + 2 \<and>
        (\<exists>sched' s'. Cancel \<notin> set sched' \<and> run w args workers s sched' = Some s' \<and>
           run_batch w args files workers (sched @ sched') = Some s' \<and> pc s' = Finished)) \<and>
     (\<forall>sched s. Cancel \<notin> set sched \<and> run_batch w args files workers sched = Some s \<and> pc s = Finished \<longrightarrow>
        length (filter is_result_line (ui_queue s)) = length files \<and>
        mset (filter is_result_line (ui_queue s)) = mset (map (\<lambda>f. fut_line (uncancelled w args f)) files) \<and>
        done_count s = length files \<and>
        ok_count s + fail_count s = length files) \<and>
     (\<forall>f. \<exists>ok msg. uncancelled w args f = Inr (f, ok, msg))"
proof (intro conjI allI impI)
  have "idle (run_batch_init files workers)" "work_queue (run_batch_init files workers) = files"
    using assms by (simp_all add: idle_def run_batch_init_def)
  then show "\<exists>s. run_batch w args files workers (sequential files) = Some s \<and> pc s = Finished"
    unfolding run_batch_def by (rule run_sequential [OF assms])
next
  show "Cancel \<notin> set (sequential files)" by (rule sequential_no_cancel)
next
  fix f show "\<exists>ok msg. uncancelled w args f = Inr (f, ok, msg)" by (rule uncancelled_Inr)
next
  fix sched s
  assume a: "Cancel \<notin> set sched \<and> run_batch w args files workers sched = Some s"
  then have r: "run w args workers (run_batch_init files workers) sched = Some s"
    by (simp add: run_batch_def)
  from run_rank [OF r] a batch_rank_init [of files workers]
  show "length sched \<le> 3 * length files + 2" by simp
  have acc: "all_accounted w args files s"
    using all_accounted_init [OF assms] r a by (blast intro: run_all_accounted)
  from run_progress [OF assms acc] obtain sched' s' where
    p: "Cancel \<notin> set sched'" "run w args workers s sched' = Some s'" "pc s' = Finished" by blast
  from r p(2) have "run_batch w args files workers (sched @ sched') = Some s'"
    by (simp add: run_batch_def run_append)
  with p show "\<exists>sched' s'. Cancel \<notin> set sched' \<and> run w args workers s sched' = Some s' \<and>
           run_batch w args files workers (sched @ sched') = Some s' \<and> pc s' = Finished"
    by blast
next
  fix sched s
  assume a: "Cancel \<notin> set sched \<and> run_batch w args files workers sched = Some s \<and> pc s = Finished"
  then have r: "run w args workers (run_batch_init files workers) sched = Some s"
    by (simp add: run_batch_def)
  have acc: "all_accounted w args files s"
    using all_accounted_init [OF assms] r a by (blast intro: run_all_accounted)
  have cnt: "counters_inv s"
    using counters_inv_init r run_counters_inv by blast
  from acc a have m: "mset (filter is_result_line (ui_queue s)) = mset (map (\<lambda>f. fut_line (uncancelled w args f)) files)"
    by (auto simp: all_accounted_def)
  then show "mset (filter is_result_line (ui_queue s)) = mset (map (\<lambda>f. fut_line (uncancelled w args f)) files)" .
  show l: "length (filter is_result_line (ui_queue s)) = length files"
    using mset_eq_length [OF m] by simp
  from acc l show d: "done_count s = length files" by (simp add: all_accounted_def)
  from cnt d show "ok_count s + fail_count s = length files" by (simp add: counters_inv_def)
qed

theorem run_batch_reports_every_file_witness:
  "(0::int) < 1 \<and> Cancel \<notin> set (sequential sample_files) \<and>
   run_batch world_ok sample_args sample_files 1 (sequential sample_files) = Some state_sequential_final \<and>
   pc state_sequential_final = Finished \<and>
   length (filter is_result_line (ui_queue state_sequential_final)) = 2 \<and>
   done_count state_sequential_final = 2 \<and>
   ok_count state_sequential_final + fail_count state_sequential_final = 2 \<and>
   (0::int) < 2 \<and> Cancel \<notin> set [Start, Start] \<and>
   run_batch world_ok sample_args sample_files 2 [Start, Start] = Some state_two_running \<and>
   length (running state_two_running) = 2 \<and>
   (\<exists>sched' s'. Cancel \<notin> set sched' \<and> run world_ok sample_args 2 state_two_running sched' = Some s' \<and>
      pc s' = Finished)"
proof -
  have p: "(0::int) < 1" "(0::int) < 2" by simp_all
  have a: "Cancel \<notin> set (sequential sample_files)" by (rule sequential_no_cancel)
  have b: "run_batch world_ok sample_args sample_files 1 (sequential sample_files) = Some state_sequential_final"
    unfolding state_sequential_final_def by code_simp
  have c: "pc state_sequential_final = Finished"
    unfolding state_sequential_final_def by code_simp
  have l: "length sample_files = 2" by (simp add: sample_files_def)
  have d: "run_batch world_ok sample_args sample_files 2 [Start, Start] = Some state_two_running"
    unfolding state_two_running_def by code_simp
  have e: "length (running state_two_running) = 2"
    unfolding state_two_running_def by code_simp
  from run_batch_reports_every_file [OF p(1), of world_ok sample_args sample_files]
  have 1: "Cancel \<notin> set (sequential sample_files) \<and>
        run_batch world_ok sample_args sample_files 1 (sequential sample_files) = Some state_sequential_final \<and>
        pc state_sequential_final = Finished \<longrightarrow>
        length (filter is_result_line (ui_queue state_sequential_final)) = length sample_files \<and>
        mset (filter is_result_line (ui_queue state_sequential_final)) =
          mset (map (\<lambda>f. fut_line (uncancelled world_ok sample_args f)) sample_files) \<and>
        done_count state_sequential_final = length sample_files \<and>
        ok_count state_sequential_final + fail_count state_sequential_final = length sample_files"
    by blast
  from run_batch_reports_every_file [OF p(2), of world_ok sample_args sample_files]
  have 2: "Cancel \<notin> set [Start, Start] \<and>
        run_batch world_ok sample_args sample_files 2 [Start, Start] = Some state_two_running \<longrightarrow>
        (\<exists>sched' s'. Cancel \<notin> set sched' \<and> run world_ok sample_args 2 state_two_running sched' = Some s' \<and>
           pc s' = Finished)"
    by blast
  from 1 2 p a b c l d e show ?thesis by simp
qed

end
